theory Spec2Isabelle
  imports Complex_Main
begin

section \<open>Time, exceptions and the outside world\<close>

text \<open>
  Python's \<^verbatim>\<open>datetime\<close> and \<^verbatim>\<open>timedelta\<close> count whole microseconds, so a
  point in time and a duration are both an \<open>int\<close> of microseconds. The source compares
  \<^verbatim>\<open>td.total_seconds()\<close>, the correctly rounded float of \<open>us / 10^6\<close>, with the
  literals \<^verbatim>\<open>1.0\<close>, \<^verbatim>\<open>0.1\<close> and \<^verbatim>\<open>0\<close>. Rounding is monotone, \<open>10^6 / 10^6\<close> is
  exactly \<^verbatim>\<open>1.0\<close> and \<open>10^5 / 10^6\<close> rounds to the very float the literal \<^verbatim>\<open>0.1\<close>
  denotes, so these comparisons are the integer comparisons with \<open>1000000\<close>, \<open>100000\<close>
  and \<open>0\<close> microseconds written below.
\<close>

type_synonym datetime = int
type_synonym timedelta = int

text \<open>The exceptions that the modelled code can raise or let through.\<close>

datatype exc =
    InvalidTimeFormat   \<comment> \<open>\<^verbatim>\<open>ValueError("Invalid time format. Use format like 1h10m01s")\<close>\<close>
  | DigitsLimit         \<comment> \<open>the \<^verbatim>\<open>ValueError\<close> of \<^verbatim>\<open>int\<close> for more than 4300 digits\<close>
  | OverflowError       \<comment> \<open>\<^verbatim>\<open>timedelta(...)\<close> beyond 999999999 days\<close>
  | OSError             \<comment> \<open>from \<^verbatim>\<open>open\<close>, \<^verbatim>\<open>write\<close> or \<^verbatim>\<open>subprocess.run\<close>\<close>
  | ZeroDivisionError

text \<open>
  What \<^verbatim>\<open>subprocess.run(['paplay', ...])\<close> can do: the program runs and exits with some
  code (which the source never inspects, there is no \<^verbatim>\<open>check=True\<close>), the executable is
  not found (\<^verbatim>\<open>FileNotFoundError\<close>), or spawning fails with another \<^verbatim>\<open>OSError\<close> such
  as \<^verbatim>\<open>PermissionError\<close>.
\<close>

datatype spawn = Exited int | NotFound | SpawnFailed

text \<open>What appending a record to the log file can do.\<close>

datatype file_io = Written | OpenFails | WriteFails

text \<open>One record of the activity log of \<^verbatim>\<open>dailytimespend.py\<close>, field by field.\<close>

record log_record =
  written_at :: datetime
  event_type :: string
  session_shown :: string
  active_shown :: string
  limit_shown :: string
  remaining_shown :: string
  activity_rate :: rat
  alerts_shown :: "int \<times> int"
  status_shown :: string

text \<open>The line drawn by one pass of the progress loop.\<close>

record progress_line =
  bar :: string
  activity_indicator :: string
  elapsed_shown :: string
  total_shown :: string
  remaining_drawn :: string
  alert_info :: "(int \<times> int) option"

text \<open>Everything the program does to the outside, in the order it does it.\<close>

datatype effect =
    Paplay int                 \<comment> \<open>the sound player ran and exited with this code\<close>
  | Bell                       \<comment> \<open>\<^verbatim>\<open>print('\a')\<close>\<close>
  | LogWrite log_record        \<comment> \<open>a record appended by \<^verbatim>\<open>dailytimespend.py\<close>\<close>
  | LogLine datetime timedelta \<comment> \<open>a line appended by \<^verbatim>\<open>dailytimespend1.py\<close>\<close>
  | PrintLimitReached timedelta bool
      \<comment> \<open>the closing message; the flag tells the "(Alert limit reached)" suffix\<close>
  | PrintBanner timedelta      \<comment> \<open>the lines \<^verbatim>\<open>start\<close> prints\<close>
  | PrintError exc             \<comment> \<open>\<^verbatim>\<open>print(f"Error: {e}")\<close>\<close>
  | Draw progress_line
  | ProgressThreadStart        \<comment> \<open>\<^verbatim>\<open>progress_thread.start()\<close>\<close>
  | HookStart                  \<comment> \<open>\<^verbatim>\<open>self.hook_manager.start()\<close>\<close>
  | HookCancel                 \<comment> \<open>\<^verbatim>\<open>self.hook_manager.cancel()\<close>\<close>

text \<open>
  The outside world as the program meets it: the readings that later calls of
  \<^verbatim>\<open>datetime.now()\<close> will return, the outcomes of later attempts to run the sound
  player and to append to the log file, and the effects so far. Each oracle is a stream;
  using an answer shifts the stream by one.
\<close>

record world =
  clock :: "nat \<Rightarrow> datetime"
  player :: "nat \<Rightarrow> spawn"
  disk :: "nat \<Rightarrow> file_io"
  out :: "effect list"

definition datetime_now :: "world \<Rightarrow> datetime \<times> world" where
  "datetime_now w = (clock w 0, w\<lparr>clock := (\<lambda>n. clock w (Suc n))\<rparr>)"

definition subprocess_run :: "world \<Rightarrow> spawn \<times> world" where
  "subprocess_run w = (player w 0, w\<lparr>player := (\<lambda>n. player w (Suc n))\<rparr>)"

definition open_append :: "world \<Rightarrow> file_io \<times> world" where
  "open_append w = (disk w 0, w\<lparr>disk := (\<lambda>n. disk w (Suc n))\<rparr>)"

definition emit :: "effect \<Rightarrow> world \<Rightarrow> world" where
  "emit e w = w\<lparr>out := out w @ [e]\<rparr>"

section \<open>The monitor object\<close>

text \<open>
  The fields of \<^verbatim>\<open>InputMonitor\<close> that the handlers read or write.
  \<^verbatim>\<open>dailytimespend1.py\<close> has no \<^verbatim>\<open>alert_count\<close>, \<^verbatim>\<open>max_alerts\<close>, \<^verbatim>\<open>last_log_time\<close>
  and \<^verbatim>\<open>log_interval\<close>; its functions (suffixed \<open>1\<close> below) never touch them.
\<close>

record monitor =
  start_time :: datetime
  last_activity :: "datetime option"
  is_active :: bool
  total_active_time :: timedelta
  time_limit :: timedelta
  running :: bool
  alert_count :: int
  max_alerts :: int
  last_log_time :: datetime
  log_interval :: timedelta

type_synonym conf = "monitor \<times> world"

text \<open>
  A method call returns the exception it raised, if any, together with the object and
  the world as it left them: what was assigned before a \<^verbatim>\<open>raise\<close> stays assigned.
\<close>

type_synonym outcome = "exc option \<times> conf"

definition and_then :: "(conf \<Rightarrow> outcome) \<Rightarrow> (conf \<Rightarrow> outcome) \<Rightarrow> conf \<Rightarrow> outcome" where
  "and_then f g c = (case f c of (None, c') \<Rightarrow> g c' | (Some e, c') \<Rightarrow> (Some e, c'))"

definition init :: "timedelta \<Rightarrow> world \<Rightarrow> conf" where
  "init limit w =
     (let (t0, w1) = datetime_now w;
          (t1, w2) = datetime_now w1
      in (\<lparr>start_time = t0, last_activity = None, is_active = False,
           total_active_time = 0, time_limit = limit, running = True,
           alert_count = 0, max_alerts = 5, last_log_time = t1,
           log_interval = 2000000\<rparr>, w2))"

section \<open>Formatting\<close>

fun dec :: "nat \<Rightarrow> string" where
  "dec n = (if n < 10 then [''0123456789'' ! n] else dec (n div 10) @ [''0123456789'' ! (n mod 10)])"

declare dec.simps [simp del]

text \<open>The format \<^verbatim>\<open>{n:02d}\<close>: at least two characters, the sign counted.\<close>

definition fmt02d :: "int \<Rightarrow> string" where
  "fmt02d n =
     (if n < 0 then CHR ''-'' # dec (nat (- n))
      else if n < 10 then CHR ''0'' # dec (nat n)
      else dec (nat n))"

text \<open>
  \<^verbatim>\<open>int(td.total_seconds())\<close> truncates towards zero. The float is taken as the exact
  quotient. That is what the code computes for durations below \<open>2^53\<close> microseconds
  (some 285 years); beyond, the rounding of the float can show one second more, which
  is outside this model.
\<close>

definition whole_seconds :: "timedelta \<Rightarrow> int" where
  "whole_seconds td = (if 0 \<le> td then td div 1000000 else - ((- td) div 1000000))"

definition format_timedelta :: "timedelta \<Rightarrow> string" where
  "format_timedelta td =
     (let total_seconds = whole_seconds td;
          hours = total_seconds div 3600;
          minutes = (total_seconds mod 3600) div 60;
          seconds = total_seconds mod 60
      in fmt02d hours @ '':'' @ fmt02d minutes @ '':'' @ fmt02d seconds)"

text \<open>
  \<^verbatim>\<open>td.total_seconds()\<close> where it is only divided: the exact rational number of seconds
  (the rounding of the floats is left out).
\<close>

definition total_seconds :: "timedelta \<Rightarrow> rat" where
  "total_seconds td = of_int td / 1000000"

definition truediv :: "rat \<Rightarrow> rat \<Rightarrow> exc + rat" where
  "truediv a b = (if b = 0 then Inl ZeroDivisionError else Inr (a / b))"

section \<open>Alert sound and log\<close>

text \<open>\<^verbatim>\<open>play_alert\<close>, the same text in both files: only \<^verbatim>\<open>FileNotFoundError\<close> is caught.\<close>

definition play_alert :: "conf \<Rightarrow> outcome" where
  "play_alert c =
     (case c of (s, w) \<Rightarrow>
        (case subprocess_run w of
           (Exited rc, w1) \<Rightarrow> (None, s, emit (Paplay rc) w1)
         | (NotFound, w1) \<Rightarrow> (None, s, emit Bell w1)
         | (SpawnFailed, w1) \<Rightarrow> (Some OSError, s, w1)))"

text \<open>
  \<^verbatim>\<open>log_activity\<close> of \<^verbatim>\<open>dailytimespend.py\<close>; \<open>log_text\<close> is its f-string. The file is
  opened before the f-string is evaluated; nothing catches what \<^verbatim>\<open>open\<close> or \<^verbatim>\<open>write\<close>
  raise.
\<close>

definition log_text ::
  "string \<Rightarrow> monitor \<Rightarrow> timedelta \<Rightarrow> timedelta \<Rightarrow> datetime \<Rightarrow> rat \<Rightarrow> log_record" where
  "log_text label s remaining_time session_duration now q =
     \<lparr>written_at = now, event_type = label,
      session_shown = format_timedelta session_duration,
      active_shown = format_timedelta (total_active_time s),
      limit_shown = format_timedelta (time_limit s),
      remaining_shown = format_timedelta remaining_time,
      activity_rate = q * 100,
      alerts_shown = (alert_count s, max_alerts s),
      status_shown = (if remaining_time \<le> 0 then ''Time Limit Reached'' else ''Active'')\<rparr>"

definition log_activity :: "string \<Rightarrow> conf \<Rightarrow> outcome" where
  "log_activity label c =
     (case c of (s, w) \<Rightarrow>
        (let remaining_time = max 0 (time_limit s - total_active_time s);
             (t, w1) = datetime_now w;
             session_duration = t - start_time s;
             (io, w2) = open_append w1
         in if io = OpenFails then (Some OSError, s, w2)
            else
              (let (t', w3) = datetime_now w2
               in case truediv (total_seconds (total_active_time s))
                         (max 1 (total_seconds session_duration)) of
                    Inl e \<Rightarrow> (Some e, s, w3)
                  | Inr q \<Rightarrow>
                      if io = WriteFails then (Some OSError, s, w3)
                      else (None, s,
                        emit (LogWrite (log_text label s remaining_time session_duration t' q))
                          w3))))"

text \<open>\<^verbatim>\<open>log_activity\<close> of \<^verbatim>\<open>dailytimespend1.py\<close>.\<close>

definition log_activity1 :: "conf \<Rightarrow> outcome" where
  "log_activity1 c =
     (case c of (s, w) \<Rightarrow>
        (let (io, w1) = open_append w
         in if io = OpenFails then (Some OSError, s, w1)
            else
              (let (t, w2) = datetime_now w1
               in if io = WriteFails then (Some OSError, s, w2)
                  else (None, s, emit (LogLine t (total_active_time s)) w2))))"

section \<open>The limit check\<close>

text \<open>\<^verbatim>\<open>check_time_limit\<close> of \<^verbatim>\<open>dailytimespend.py\<close>: up to \<^verbatim>\<open>max_alerts\<close> alerts, then the stop.\<close>

definition alert_once :: "conf \<Rightarrow> outcome" where
  "alert_once =
     and_then play_alert
       (and_then (\<lambda>(s, w). (None, s\<lparr>alert_count := alert_count s + 1\<rparr>, w))
          (log_activity ''Time Limit Alert''))"

definition end_session :: "conf \<Rightarrow> outcome" where
  "end_session =
     and_then (\<lambda>(s, w). (None, s\<lparr>running := False\<rparr>, w))
       (and_then (log_activity ''Session Ended - Time Limit Reached'')
          (\<lambda>(s, w). (None, s, emit HookCancel (emit (PrintLimitReached (time_limit s) True) w))))"

definition check_time_limit :: "conf \<Rightarrow> outcome" where
  "check_time_limit c =
     (if time_limit (fst c) \<le> total_active_time (fst c) then
        and_then
          (\<lambda>c1. if alert_count (fst c1) < max_alerts (fst c1) then alert_once c1 else (None, c1))
          (\<lambda>c2. if max_alerts (fst c2) \<le> alert_count (fst c2) then end_session c2 else (None, c2))
          c
      else (None, c))"

text \<open>\<^verbatim>\<open>check_time_limit\<close> of \<^verbatim>\<open>dailytimespend1.py\<close>: the stop at the first breach.\<close>

definition check_time_limit1 :: "conf \<Rightarrow> outcome" where
  "check_time_limit1 c =
     (if time_limit (fst c) \<le> total_active_time (fst c) then
        and_then (\<lambda>(s, w). (None, s\<lparr>running := False\<rparr>, w))
          (and_then play_alert
             (and_then log_activity1
                (\<lambda>(s, w). (None, s,
                   emit HookCancel (emit (PrintLimitReached (time_limit s) False) w)))))
          c
      else (None, c))"

text \<open>\<^verbatim>\<open>check_log_update\<close>: the periodic record, \<^verbatim>\<open>dailytimespend.py\<close> only.\<close>

definition check_log_update :: "conf \<Rightarrow> outcome" where
  "check_log_update c =
     (case c of (s, w) \<Rightarrow>
        (let (current_time, w1) = datetime_now w
         in if log_interval s \<le> current_time - last_log_time s then
              and_then (log_activity ''Regular Update'')
                (\<lambda>(s', w'). (None, s'\<lparr>last_log_time := current_time\<rparr>, w')) (s, w1)
            else (None, s, w1)))"

section \<open>The event handlers\<close>

text \<open>
  The first lines of \<^verbatim>\<open>handle_keyboard\<close>, the same in both files, up to
  \<^verbatim>\<open>self.is_active = True\<close>. The argument \<open>current_time\<close> is what \<^verbatim>\<open>datetime.now()\<close>
  returned to the handler: the time of the event.
\<close>

definition note_activity :: "datetime \<Rightarrow> monitor \<Rightarrow> monitor" where
  "note_activity current_time s =
     (let s1 = (case last_activity s of
                  None \<Rightarrow> s\<lparr>last_activity := Some current_time\<rparr>
                | Some prev \<Rightarrow>
                    (let time_diff = current_time - prev
                     in if time_diff \<le> 1000000
                        then s\<lparr>total_active_time := total_active_time s + time_diff\<rparr>
                        else s))
      in s1\<lparr>last_activity := Some current_time, is_active := True\<rparr>)"

definition handle_keyboard :: "datetime \<Rightarrow> conf \<Rightarrow> outcome" where
  "handle_keyboard current_time c =
     (case c of (s, w) \<Rightarrow>
        and_then check_time_limit check_log_update (note_activity current_time s, w))"

definition handle_keyboard1 :: "datetime \<Rightarrow> conf \<Rightarrow> outcome" where
  "handle_keyboard1 current_time c =
     (case c of (s, w) \<Rightarrow> check_time_limit1 (note_activity current_time s, w))"

definition handle_mouse_click :: "datetime \<Rightarrow> conf \<Rightarrow> outcome" where
  "handle_mouse_click current_time c = handle_keyboard current_time c"

definition handle_mouse_click1 :: "datetime \<Rightarrow> conf \<Rightarrow> outcome" where
  "handle_mouse_click1 current_time c = handle_keyboard1 current_time c"

text \<open>
  \<^verbatim>\<open>handle_mouse_movement\<close> reads the clock itself (\<open>seen\<close>) before it decides; the
  handler it forwards to reads the clock again (\<open>current_time\<close>).
\<close>

definition moved_enough :: "datetime \<Rightarrow> monitor \<Rightarrow> bool" where
  "moved_enough seen s =
     (case last_activity s of None \<Rightarrow> True | Some prev \<Rightarrow> 100000 < seen - prev)"

definition handle_mouse_movement :: "datetime \<Rightarrow> datetime \<Rightarrow> conf \<Rightarrow> outcome" where
  "handle_mouse_movement seen current_time c =
     (if moved_enough seen (fst c) then handle_keyboard current_time c else (None, c))"

definition handle_mouse_movement1 :: "datetime \<Rightarrow> datetime \<Rightarrow> conf \<Rightarrow> outcome" where
  "handle_mouse_movement1 seen current_time c =
     (if moved_enough seen (fst c) then handle_keyboard1 current_time c else (None, c))"

section \<open>The progress loop\<close>

text \<open>
  One pass of the \<^verbatim>\<open>while self.running\<close> loop of \<^verbatim>\<open>draw_progress_bar\<close>. The loop runs
  in a thread of its own and sleeps between passes, so the handlers run in between; a
  pass is taken as one step on the object as it finds it. It reads
  \<^verbatim>\<open>total_active_time\<close> once for \<open>remaining_time\<close> and \<^verbatim>\<open>time_limit\<close> never changes, so
  the test of the remaining time and the division see the values used here.
  \<^verbatim>\<open>int(x)\<close> truncates towards zero; a string times a negative number is empty.
\<close>

datatype pass = Stopped | Drawn | Crashed exc

definition int_of_float :: "rat \<Rightarrow> int" where
  "int_of_float x = (if 0 \<le> x then \<lfloor>x\<rfloor> else \<lceil>x\<rceil>)"

definition draw_line :: "bool \<Rightarrow> monitor \<Rightarrow> timedelta \<Rightarrow> rat \<Rightarrow> progress_line" where
  "draw_line with_alerts s remaining_time progress =
     (let bar_length = 40;
          filled_length = int_of_float (of_int bar_length * progress)
      in \<lparr>bar = replicate (nat filled_length) CHR ''=''
                 @ replicate (nat (bar_length - filled_length)) CHR ''-'',
          activity_indicator = (if is_active s then ''*'' else '' ''),
          elapsed_shown = format_timedelta (total_active_time s),
          total_shown = format_timedelta (time_limit s),
          remaining_drawn = format_timedelta remaining_time,
          alert_info = (if with_alerts \<and> 0 < alert_count s
                        then Some (alert_count s, max_alerts s) else None)\<rparr>)"

definition progress_pass :: "bool \<Rightarrow> conf \<Rightarrow> pass \<times> conf" where
  "progress_pass with_alerts c =
     (case c of (s, w) \<Rightarrow>
        if \<not> running s then (Stopped, s, w)
        else
          (let remaining_time = time_limit s - total_active_time s
           in if remaining_time \<le> 0 then (Stopped, s, w)
              else
                (case truediv (total_seconds (total_active_time s))
                        (total_seconds (time_limit s)) of
                   Inl e \<Rightarrow> (Crashed e, s, w)
                 | Inr progress \<Rightarrow>
                     (Drawn, s\<lparr>is_active := False\<rparr>,
                      emit (Draw (draw_line with_alerts s remaining_time progress)) w))))"

text \<open>The loop body of \<^verbatim>\<open>dailytimespend.py\<close> and that of \<^verbatim>\<open>dailytimespend1.py\<close>.\<close>

definition draw_progress_bar_pass :: "conf \<Rightarrow> pass \<times> conf" where
  "draw_progress_bar_pass = progress_pass True"

definition draw_progress_bar_pass1 :: "conf \<Rightarrow> pass \<times> conf" where
  "draw_progress_bar_pass1 = progress_pass False"

section \<open>Runs\<close>

text \<open>
  What happens to a monitor over time: the hook library calls a handler for an event,
  one event after the other. A handler that raises leaves the object as it was at the
  \<^verbatim>\<open>raise\<close>; what the hook library does then is its own business, so a run goes on from
  there, which covers every sequence of calls the library can make.
\<close>

datatype step =
    KeyDown datetime
  | MouseAllButtonsDown datetime
  | MouseMovement datetime datetime

fun deliver :: "step \<Rightarrow> conf \<Rightarrow> conf" where
  "deliver (KeyDown t) c = snd (handle_keyboard t c)"
| "deliver (MouseAllButtonsDown t) c = snd (handle_mouse_click t c)"
| "deliver (MouseMovement seen t) c = snd (handle_mouse_movement seen t c)"

fun run :: "step list \<Rightarrow> conf \<Rightarrow> conf" where
  "run [] c = c"
| "run (e # es) c = run es (deliver e c)"

fun deliver1 :: "step \<Rightarrow> conf \<Rightarrow> conf" where
  "deliver1 (KeyDown t) c = snd (handle_keyboard1 t c)"
| "deliver1 (MouseAllButtonsDown t) c = snd (handle_mouse_click1 t c)"
| "deliver1 (MouseMovement seen t) c = snd (handle_mouse_movement1 seen t c)"

fun run1 :: "step list \<Rightarrow> conf \<Rightarrow> conf" where
  "run1 [] c = c"
| "run1 (e # es) c = run1 es (deliver1 e c)"

text \<open>
  A session: the loop of \<^verbatim>\<open>draw_progress_bar\<close> runs in one thread, which \<^verbatim>\<open>start\<close>
  starts (\<^verbatim>\<open>progress_thread.start()\<close>) before the hook manager
  (\<^verbatim>\<open>self.hook_manager.start()\<close>), so its first pass finds the monitor as \<^verbatim>\<open>start\<close>
  left it. After that, events and passes come in any order, until a pass leaves the loop (at
  a \<^verbatim>\<open>break\<close>, or because \<^verbatim>\<open>running\<close> is false) or dies of an exception: the thread has
  ended then, and there are no more passes.
\<close>

datatype loop = Looping | Ended | Died exc

datatype happening = Hook step | Pass

definition pass_on :: "(conf \<Rightarrow> pass \<times> conf) \<Rightarrow> loop \<times> conf \<Rightarrow> loop \<times> conf" where
  "pass_on draw lc =
     (case lc of
        (Looping, c) \<Rightarrow>
          (case draw c of
             (Drawn, c') \<Rightarrow> (Looping, c')
           | (Stopped, c') \<Rightarrow> (Ended, c')
           | (Crashed e, c') \<Rightarrow> (Died e, c'))
      | (l, c) \<Rightarrow> (l, c))"

fun happen :: "happening \<Rightarrow> loop \<times> conf \<Rightarrow> loop \<times> conf" where
  "happen (Hook e) lc = (fst lc, deliver e (snd lc))"
| "happen Pass lc = pass_on draw_progress_bar_pass lc"

fun happen1 :: "happening \<Rightarrow> loop \<times> conf \<Rightarrow> loop \<times> conf" where
  "happen1 (Hook e) lc = (fst lc, deliver1 e (snd lc))"
| "happen1 Pass lc = pass_on draw_progress_bar_pass1 lc"

definition session :: "happening list \<Rightarrow> conf \<Rightarrow> loop \<times> conf" where
  "session hs c = foldl (\<lambda>lc h. happen h lc) (happen Pass (Looping, c)) hs"

definition session1 :: "happening list \<Rightarrow> conf \<Rightarrow> loop \<times> conf" where
  "session1 hs c = foldl (\<lambda>lc h. happen1 h lc) (happen1 Pass (Looping, c)) hs"

section \<open>The time limit on the command line\<close>

text \<open>
  \<^verbatim>\<open>re.match\<close> is a backtracking matcher: it tries the alternatives of a pattern in
  order of preference and returns the first way to match a prefix of the string. The
  fragment of patterns below is what \<^verbatim>\<open>(?:(\d+)h)?(?:(\d+)m)?(?:(\d+)s)?\<close> is built from;
  \<open>Digits\<close> is the greedy \<^verbatim>\<open>\d+\<close>, \<open>Opt\<close> the greedy \<^verbatim>\<open>?\<close>, \<open>Grp\<close> a numbered group. The
  matcher takes what is to be done with the rest of the string as a continuation; a
  failing continuation makes it try the next alternative.

  A \<open>string\<close> is a list of 8-bit characters: the model covers the command lines whose
  code points are below 256, where the decimal digits \<^verbatim>\<open>\d\<close> matches are \<open>0\<close> to \<open>9\<close>.
\<close>

datatype re = Lit char | Digits | Opt re | Seq re re | Grp nat re

type_synonym groups = "nat \<Rightarrow> string option"

definition is_digit :: "char \<Rightarrow> bool" where
  "is_digit c = (48 \<le> (of_char c :: nat) \<and> (of_char c :: nat) \<le> 57)"

fun more_digits :: "string \<Rightarrow> (string \<Rightarrow> 'a option) \<Rightarrow> 'a option" where
  "more_digits [] k = k []"
| "more_digits (c # cs) k =
     (if is_digit c
      then (case more_digits cs k of Some r \<Rightarrow> Some r | None \<Rightarrow> k (c # cs))
      else k (c # cs))"

fun some_digits :: "string \<Rightarrow> (string \<Rightarrow> 'a option) \<Rightarrow> 'a option" where
  "some_digits [] k = None"
| "some_digits (c # cs) k = (if is_digit c then more_digits cs k else None)"

fun rmatch :: "re \<Rightarrow> string \<Rightarrow> groups \<Rightarrow> (string \<Rightarrow> groups \<Rightarrow> groups option) \<Rightarrow> groups option" where
  "rmatch (Lit c) s g k = (case s of [] \<Rightarrow> None | x # xs \<Rightarrow> if x = c then k xs g else None)"
| "rmatch Digits s g k = some_digits s (\<lambda>rest. k rest g)"
| "rmatch (Opt r) s g k = (case rmatch r s g k of Some m \<Rightarrow> Some m | None \<Rightarrow> k s g)"
| "rmatch (Seq a b) s g k = rmatch a s g (\<lambda>s' g'. rmatch b s' g' k)"
| "rmatch (Grp i r) s g k =
     rmatch r s g (\<lambda>s' g'. k s' (g'(i \<mapsto> take (length s - length s') s)))"

text \<open>\<^verbatim>\<open>re.match(pattern, s)\<close>: anchored at the start only; the groups of the match.\<close>

definition re_match :: "re \<Rightarrow> string \<Rightarrow> groups option" where
  "re_match p s = rmatch p s (\<lambda>i. None) (\<lambda>rest g. Some g)"

definition component :: "nat \<Rightarrow> char \<Rightarrow> re" where
  "component i unit = Opt (Seq (Grp i Digits) (Lit unit))"

definition pattern :: re where
  "pattern = Seq (component 1 CHR ''h'') (Seq (component 2 CHR ''m'') (component 3 CHR ''s''))"

text \<open>
  \<^verbatim>\<open>int(group or 0)\<close>: the decimal value of the digits, 0 for a group that took no part.
  \<^verbatim>\<open>int\<close> refuses a string of more than 4300 digits, leading zeros counted, with a
  \<^verbatim>\<open>ValueError\<close> (the default limit of CPython from 3.11 on).
\<close>

definition int_of_digits :: "string \<Rightarrow> int" where
  "int_of_digits ds = foldl (\<lambda>a c. 10 * a + (int (of_char c) - 48)) 0 ds"

definition py_int :: "string \<Rightarrow> exc + int" where
  "py_int ds = (if 4300 < length ds then Inl DigitsLimit else Inr (int_of_digits ds))"

definition int_or_0 :: "string option \<Rightarrow> exc + int" where
  "int_or_0 x = (case x of None \<Rightarrow> Inr 0 | Some ds \<Rightarrow> py_int ds)"

text \<open>
  \<^verbatim>\<open>timedelta(hours=, minutes=, seconds=)\<close>: the duration in microseconds, or
  \<^verbatim>\<open>OverflowError\<close> when it is beyond 999999999 days.
\<close>

definition timedelta :: "int \<Rightarrow> int \<Rightarrow> int \<Rightarrow> exc + timedelta" where
  "timedelta hours minutes seconds =
     (let us = (hours * 3600 + minutes * 60 + seconds) * 1000000
      in if 999999999 < \<bar>us div 86400000000\<bar> then Inl OverflowError else Inr us)"

definition parse_time_limit :: "string \<Rightarrow> exc + timedelta" where
  "parse_time_limit time_str =
     (case re_match pattern time_str of
        None \<Rightarrow> Inl InvalidTimeFormat
      | Some g \<Rightarrow>
          (case int_or_0 (g 1) of
             Inl e \<Rightarrow> Inl e
           | Inr hours \<Rightarrow>
               (case int_or_0 (g 2) of
                  Inl e \<Rightarrow> Inl e
                | Inr minutes \<Rightarrow>
                    (case int_or_0 (g 3) of
                       Inl e \<Rightarrow> Inl e
                     | Inr seconds \<Rightarrow> timedelta hours minutes seconds))))"

text \<open>
  A string conforms to \<^verbatim>\<open><N>h<N>m<N>s\<close> when the pattern can take all of it: the same
  match, with the end of the string required.
\<close>

definition conforms :: "string \<Rightarrow> bool" where
  "conforms s =
     (rmatch pattern s (\<lambda>i. None) (\<lambda>rest g. if rest = [] then Some g else None) \<noteq> None)"

section \<open>Start-up\<close>

text \<open>
  \<^verbatim>\<open>start\<close> of \<^verbatim>\<open>dailytimespend.py\<close>: the banner, the first log record, the two threads.
  \<^verbatim>\<open>main\<close> catches \<^verbatim>\<open>ValueError\<close> (return code 1) and \<^verbatim>\<open>KeyboardInterrupt\<close> (an
  asynchronous signal, not modelled); any other exception leaves \<^verbatim>\<open>main\<close>. Its result is
  the exception that left it or the value it returned, the monitor if one was created, and
  the world.
\<close>

definition start :: "conf \<Rightarrow> outcome" where
  "start =
     and_then (\<lambda>(s, w). (None, s, emit (PrintBanner (time_limit s)) w))
       (and_then (log_activity ''Session Started'')
          (\<lambda>(s, w). (None, s, emit HookStart (emit ProgressThreadStart w))))"

definition is_ValueError :: "exc \<Rightarrow> bool" where
  "is_ValueError e = (e = InvalidTimeFormat \<or> e = DigitsLimit)"

definition main :: "string \<Rightarrow> world \<Rightarrow> (exc + int option) \<times> monitor option \<times> world" where
  "main time w =
     (let tried =
        (case parse_time_limit time of
           Inl e \<Rightarrow> (Some e, None, w)
         | Inr limit \<Rightarrow> (case start (init limit w) of (x, s, w') \<Rightarrow> (x, Some s, w')))
      in case tried of
           (None, m, w') \<Rightarrow> (Inr None, m, w')
         | (Some e, m, w') \<Rightarrow>
             if is_ValueError e then (Inr (Some 1), m, emit (PrintError e) w')
             else (Inl e, m, w'))"

text \<open>
  \<^verbatim>\<open>exit(main())\<close>: \<^verbatim>\<open>None\<close> is status 0, an exception that nothing caught ends the
  interpreter with status 1.
\<close>

definition exit_status :: "exc + int option \<Rightarrow> int" where
  "exit_status r = (case r of Inl e \<Rightarrow> 1 | Inr None \<Rightarrow> 0 | Inr (Some n) \<Rightarrow> n)"

section \<open>Notions of the specification\<close>

text \<open>
  The sum of the gaps between consecutive events that are at most one second, for events
  at the times \<open>ts\<close> after a previous event at \<open>prev\<close>, if there was one.
\<close>

fun short_gaps :: "datetime option \<Rightarrow> datetime list \<Rightarrow> timedelta" where
  "short_gaps prev [] = 0"
| "short_gaps None (t # ts) = short_gaps (Some t) ts"
| "short_gaps (Some p) (t # ts) = (if t - p \<le> 1000000 then t - p else 0) + short_gaps (Some t) ts"

text \<open>
  The number of update cycles, among the events at the times \<open>ts\<close>, in which the limit
  check finds the active time at or above the limit.
\<close>

fun breaches :: "datetime list \<Rightarrow> monitor \<Rightarrow> nat" where
  "breaches [] s = 0"
| "breaches (t # ts) s =
     (if time_limit (note_activity t s) \<le> total_active_time (note_activity t s) then 1 else 0)
       + breaches ts (note_activity t s)"

text \<open>A world in which the sound player can always be tried and the log always written.\<close>

definition dependable :: "world \<Rightarrow> bool" where
  "dependable w = ((\<forall>n. player w n \<noteq> SpawnFailed) \<and> (\<forall>n. disk w n = Written))"

text \<open>Kinds of effects, to count them in what a run has done.\<close>

fun is_alert :: "effect \<Rightarrow> bool" where
  "is_alert (Paplay rc) = True"
| "is_alert Bell = True"
| "is_alert e = False"

fun is_record :: "string \<Rightarrow> effect \<Rightarrow> bool" where
  "is_record label (LogWrite r) = (event_type r = label)"
| "is_record label e = False"

fun is_line :: "effect \<Rightarrow> bool" where
  "is_line (LogLine t d) = True"
| "is_line e = False"

fun is_closing :: "effect \<Rightarrow> bool" where
  "is_closing (PrintLimitReached d b) = True"
| "is_closing e = False"

definition count :: "(effect \<Rightarrow> bool) \<Rightarrow> world \<Rightarrow> nat" where
  "count P w = length (filter P (out w))"

text \<open>A world for examples: the clock stands at 0, no sound player, a writable log.\<close>

definition quiet :: world where
  "quiet = \<lparr>clock = (\<lambda>n. 0), player = (\<lambda>n. NotFound), disk = (\<lambda>n. Written), out = []\<rparr>"

text \<open>
  A component of a duration string as it is written: nothing, or a number and its unit.
\<close>

fun written :: "string option \<Rightarrow> char \<Rightarrow> string" where
  "written None unit = []"
| "written (Some ds) unit = ds @ [unit]"

definition number :: "string option \<Rightarrow> bool" where
  "number x = (case x of None \<Rightarrow> True | Some ds \<Rightarrow> ds \<noteq> [] \<and> list_all is_digit ds)"

text \<open>
  The number that a component stands for, 0 when it is missing, and whether its digits are
  few enough for \<^verbatim>\<open>int\<close>.
\<close>

definition amount :: "string option \<Rightarrow> int" where
  "amount x = (case x of None \<Rightarrow> 0 | Some ds \<Rightarrow> int_of_digits ds)"

definition within_limit :: "string option \<Rightarrow> bool" where
  "within_limit x = (case x of None \<Rightarrow> True | Some ds \<Rightarrow> length ds \<le> 4300)"

text \<open>
  \<^verbatim>\<open>__init__\<close> of \<^verbatim>\<open>dailytimespend1.py\<close> reads the clock once. The four fields that its
  class does not have are filled with zeros, which nothing reads.
\<close>

definition init1 :: "timedelta \<Rightarrow> world \<Rightarrow> conf" where
  "init1 limit w =
     (let (t0, w1) = datetime_now w
      in (\<lparr>start_time = t0, last_activity = None, is_active = False,
           total_active_time = 0, time_limit = limit, running = True,
           alert_count = 0, max_alerts = 0, last_log_time = 0, log_interval = 0\<rparr>, w1))"

text \<open>
  Invariants for the proofs about alerts: what a monitor and the effects look like, in a
  dependable world, once the limit check has found the limit reached \<open>j\<close> times since
  the configuration \<open>c0\<close>; first for \<^verbatim>\<open>dailytimespend.py\<close>, then for
  \<^verbatim>\<open>dailytimespend1.py\<close>.
\<close>

definition escalated :: "nat \<Rightarrow> conf \<Rightarrow> conf \<Rightarrow> bool" where
  "escalated j c0 c =
     (dependable (snd c) \<and> max_alerts (fst c) = 5 \<and>
      alert_count (fst c) = int (min 5 j) \<and> running (fst c) = (j < 5) \<and>
      count is_alert (snd c) = count is_alert (snd c0) + min 5 j \<and>
      count (is_record ''Time Limit Alert'') (snd c)
        = count (is_record ''Time Limit Alert'') (snd c0) + min 5 j \<and>
      count (is_record ''Session Ended - Time Limit Reached'') (snd c)
        = count (is_record ''Session Ended - Time Limit Reached'') (snd c0) + (j - 4) \<and>
      count is_closing (snd c) = count is_closing (snd c0) + (j - 4) \<and>
      count (\<lambda>e. e = HookCancel) (snd c) = count (\<lambda>e. e = HookCancel) (snd c0) + (j - 4))"

definition halted :: "nat \<Rightarrow> conf \<Rightarrow> conf \<Rightarrow> bool" where
  "halted j c0 c =
     (dependable (snd c) \<and> running (fst c) = (j = 0) \<and>
      count is_alert (snd c) = count is_alert (snd c0) + j \<and>
      count is_line (snd c) = count is_line (snd c0) + j \<and>
      count is_closing (snd c) = count is_closing (snd c0) + j \<and>
      count (\<lambda>e. e = HookCancel) (snd c) = count (\<lambda>e. e = HookCancel) (snd c0) + j)"

text \<open>
  Two notions for the proofs about the pattern: the groups after a component has been
  read, and a string that does not begin with a number followed by the unit \<open>u\<close>.
\<close>

definition captured :: "nat \<Rightarrow> string option \<Rightarrow> groups \<Rightarrow> groups" where
  "captured i x g = (case x of None \<Rightarrow> g | Some ds \<Rightarrow> g(i \<mapsto> ds))"

definition other_unit :: "char \<Rightarrow> string \<Rightarrow> bool" where
  "other_unit u s =
     (s = [] \<or> (\<exists>ds v rest. s = ds @ v # rest \<and> list_all is_digit ds \<and> v \<noteq> u \<and> \<not> is_digit v))"

section \<open>What the handlers leave alone\<close>

text \<open>
  The limit check, the log and the alert sound change \<^verbatim>\<open>alert_count\<close>, \<^verbatim>\<open>running\<close> and
  \<^verbatim>\<open>last_log_time\<close> only, whether they return or raise: any view \<open>P\<close> of the monitor
  that does not look at those fields is the same afterwards.
\<close>

lemma and_then_keeps:
  assumes "\<And>c. P (fst (snd (f c))) = P (fst c)" and "\<And>c. P (fst (snd (g c))) = P (fst c)"
  shows "P (fst (snd (and_then f g c))) = P (fst c)"
proof -
  obtain x c' where fc: "f c = (x, c')" by (metis surj_pair)
  show ?thesis
  proof (cases x)
    case None
    with fc have "and_then f g c = g c'" by (simp add: and_then_def)
    moreover from fc have "P (fst c') = P (fst c)" using assms(1) [of c] by simp
    ultimately show ?thesis using assms(2) [of c'] by simp
  next
    case (Some e)
    with fc have "and_then f g c = (Some e, c')" by (simp add: and_then_def)
    then show ?thesis using assms(1) [of c] fc by simp
  qed
qed

lemma play_alert_monitor: "fst (snd (play_alert c)) = fst c"
  by (simp add: play_alert_def subprocess_run_def split: prod.split spawn.split)

lemma log_activity_monitor: "fst (snd (log_activity label c)) = fst c"
  by (simp add: log_activity_def Let_def split: prod.split sum.split)

lemma log_activity1_monitor: "fst (snd (log_activity1 c)) = fst c"
  by (simp add: log_activity1_def Let_def split: prod.split)

lemma alert_once_keeps:
  assumes "\<And>s n. P (s\<lparr>alert_count := n\<rparr>) = P s"
  shows "P (fst (snd (alert_once c))) = P (fst c)"
  unfolding alert_once_def
  by (intro and_then_keeps) (simp_all add: play_alert_monitor log_activity_monitor assms split: prod.split)

lemma end_session_keeps:
  assumes "\<And>s b. P (s\<lparr>running := b\<rparr>) = P s"
  shows "P (fst (snd (end_session c))) = P (fst c)"
  unfolding end_session_def
  by (intro and_then_keeps) (simp_all add: log_activity_monitor assms split: prod.split)

lemma check_time_limit_keeps:
  assumes "\<And>s n. P (s\<lparr>alert_count := n\<rparr>) = P s" and "\<And>s b. P (s\<lparr>running := b\<rparr>) = P s"
  shows "P (fst (snd (check_time_limit c))) = P (fst c)"
proof -
  have "P (fst (snd (and_then
          (\<lambda>c1. if alert_count (fst c1) < max_alerts (fst c1) then alert_once c1 else (None, c1))
          (\<lambda>c2. if max_alerts (fst c2) \<le> alert_count (fst c2) then end_session c2 else (None, c2))
          c))) = P (fst c)"
    by (intro and_then_keeps) (simp_all add: alert_once_keeps end_session_keeps assms)
  then show ?thesis by (simp add: check_time_limit_def)
qed

lemma check_time_limit1_keeps:
  assumes "\<And>s b. P (s\<lparr>running := b\<rparr>) = P s"
  shows "P (fst (snd (check_time_limit1 c))) = P (fst c)"
proof -
  have "P (fst (snd (and_then (\<lambda>(s, w). (None, s\<lparr>running := False\<rparr>, w))
          (and_then play_alert
             (and_then log_activity1
                (\<lambda>(s, w). (None, s,
                   emit HookCancel (emit (PrintLimitReached (time_limit s) False) w)))))
          c))) = P (fst c)"
    by (intro and_then_keeps) (simp_all add: play_alert_monitor log_activity1_monitor assms split: prod.split)
  then show ?thesis by (simp add: check_time_limit1_def)
qed

lemma check_log_update_keeps:
  assumes "\<And>s t. P (s\<lparr>last_log_time := t\<rparr>) = P s"
  shows "P (fst (snd (check_log_update c))) = P (fst c)"
proof (cases c)
  case (Pair s w)
  have "P (fst (snd (and_then (log_activity ''Regular Update'')
                (\<lambda>(s', w'). (None, s'\<lparr>last_log_time := t\<rparr>, w')) c'))) = P (fst c')" for t c'
    by (intro and_then_keeps) (simp_all add: log_activity_monitor assms split: prod.split)
  then show ?thesis using Pair
    by (simp add: check_log_update_def Let_def datetime_now_def split: prod.split)
qed

lemma handle_keyboard_keeps:
  assumes "\<And>s n. P (s\<lparr>alert_count := n\<rparr>) = P s" and "\<And>s b. P (s\<lparr>running := b\<rparr>) = P s"
    and "\<And>s t. P (s\<lparr>last_log_time := t\<rparr>) = P s"
  shows "P (fst (snd (handle_keyboard t (s, w)))) = P (note_activity t s)"
proof -
  have "P (fst (snd (and_then check_time_limit check_log_update c))) = P (fst c)" for c
    by (intro and_then_keeps) (simp_all add: check_time_limit_keeps check_log_update_keeps assms)
  then show ?thesis by (simp add: handle_keyboard_def)
qed

lemma handle_keyboard1_keeps:
  assumes "\<And>s b. P (s\<lparr>running := b\<rparr>) = P s"
  shows "P (fst (snd (handle_keyboard1 t (s, w)))) = P (note_activity t s)"
  by (simp add: handle_keyboard1_def check_time_limit1_keeps assms)

section \<open>Accounting of one event\<close>

text \<open>
  C1. An event that reaches \<^verbatim>\<open>handle_keyboard\<close> at time \<open>t\<close>, in either file: when
  \<^verbatim>\<open>last_activity\<close> is unset nothing is added to \<^verbatim>\<open>total_active_time\<close>; otherwise the
  gap \<open>t - last_activity\<close> is added exactly when it is at most one second; afterwards
  \<^verbatim>\<open>last_activity\<close> is \<open>t\<close> and \<^verbatim>\<open>is_active\<close> is true. This holds also when the limit
  check or the log raises.
\<close>

theorem handle_keyboard_accounting:
  "last_activity (fst (snd (handle_keyboard t (s, w)))) = Some t \<and>
   is_active (fst (snd (handle_keyboard t (s, w)))) \<and>
   total_active_time (fst (snd (handle_keyboard t (s, w)))) =
     (case last_activity s of
        None \<Rightarrow> total_active_time s
      | Some prev \<Rightarrow>
          if t - prev \<le> 1000000 then total_active_time s + (t - prev) else total_active_time s) \<and>
   last_activity (fst (snd (handle_keyboard1 t (s, w)))) = Some t \<and>
   is_active (fst (snd (handle_keyboard1 t (s, w)))) \<and>
   total_active_time (fst (snd (handle_keyboard1 t (s, w)))) =
     (case last_activity s of
        None \<Rightarrow> total_active_time s
      | Some prev \<Rightarrow>
          if t - prev \<le> 1000000 then total_active_time s + (t - prev) else total_active_time s)"
proof -
  have 1: "last_activity (note_activity t s) = Some t" 
    by (simp add: note_activity_def Let_def)
  have 2: "is_active (note_activity t s)"
    by (simp add: note_activity_def Let_def)
  have 3: "total_active_time (note_activity t s) = (case last_activity s of
        None \<Rightarrow> total_active_time s
      | Some prev \<Rightarrow>
          if t - prev \<le> 1000000 then total_active_time s + (t - prev) else total_active_time s)"
    by (simp add: note_activity_def Let_def split: option.split)
  show ?thesis
    using 1 2 3 by (simp add: handle_keyboard_keeps handle_keyboard1_keeps)
qed

section \<open>Active time over a sequence of events\<close>

lemma note_activity_last: "last_activity (note_activity t s) = Some t"
  by (simp add: note_activity_def Let_def)

lemma note_activity_total:
  "total_active_time (note_activity t s) =
     total_active_time s + short_gaps (last_activity s) [t]"
  by (cases "last_activity s") (simp_all add: note_activity_def Let_def)

lemma handle_keyboard_total:
  "total_active_time (fst (snd (handle_keyboard t c))) =
     total_active_time (fst c) + short_gaps (last_activity (fst c)) [t]"
  by (cases c) (simp add: handle_keyboard_keeps note_activity_total)

lemma handle_keyboard_last: "last_activity (fst (snd (handle_keyboard t c))) = Some t"
  by (cases c) (simp add: handle_keyboard_keeps note_activity_last)

lemma short_gaps_Cons:
  "short_gaps prev (t # ts) = short_gaps prev [t] + short_gaps (Some t) ts"
  by (cases prev) simp_all

lemma run_keys_total:
  "total_active_time (fst (run (map KeyDown ts) c)) =
     total_active_time (fst c) + short_gaps (last_activity (fst c)) ts"
proof (induction ts arbitrary: c)
  case Nil
  show ?case by simp
next
  case (Cons t ts)
  show ?case
    using Cons.IH [of "snd (handle_keyboard t c)"] short_gaps_Cons [of "last_activity (fst c)" t ts]
    by (simp add: handle_keyboard_total handle_keyboard_last)
qed

lemma run_keys_last:
  "last_activity (fst (run (map KeyDown ts) c)) =
     (if ts = [] then last_activity (fst c) else Some (last ts))"
proof (induction ts arbitrary: c)
  case Nil
  show ?case by simp
next
  case (Cons t ts)
  show ?case using Cons.IH [of "snd (handle_keyboard t c)"]
    by (simp add: handle_keyboard_last)
qed

lemma short_gaps_nonneg: "sorted (p # ts) \<Longrightarrow> 0 \<le> short_gaps (Some p) ts"
proof (induction ts arbitrary: p)
  case Nil
  show ?case by simp
next
  case (Cons t ts)
  from Cons.prems have "p \<le> t" and "sorted (t # ts)" by simp_all
  with Cons.IH [of t] show ?case by simp
qed

lemma short_gaps_None_nonneg: "sorted ts \<Longrightarrow> 0 \<le> short_gaps None ts"
proof (cases ts)
  case Nil
  then show ?thesis by simp
next
  case (Cons t ts')
  assume "sorted ts"
  with Cons have "sorted (t # ts')" by simp
  then have "0 \<le> short_gaps (Some t) ts'" by (rule short_gaps_nonneg)
  with Cons show ?thesis by simp
qed

lemma run_append: "run (xs @ ys) c = run ys (run xs c)"
  by (induction xs arbitrary: c) simp_all

lemma init_fields:
  "last_activity (fst (init limit w)) = None"
  "total_active_time (fst (init limit w)) = 0"
  "time_limit (fst (init limit w)) = limit"
  "alert_count (fst (init limit w)) = 0"
  "max_alerts (fst (init limit w)) = 5"
  "running (fst (init limit w))"
  by (simp_all add: init_def datetime_now_def)

text \<open>
  C5. Key events at non-decreasing times \<open>ts\<close>, delivered to a fresh monitor: the active
  time after the first \<open>n\<close> of them is at most the active time after the first \<open>m\<close>, for
  \<open>n \<le> m\<close>, and the active time after all of them is at most (in fact, equal to) the
  sum of the gaps between consecutive events that are one second or less.
\<close>

theorem total_active_time_monotone:
  assumes "sorted ts" and "n \<le> m"
  shows "total_active_time (fst (run (map KeyDown (take n ts)) (init limit w)))
           \<le> total_active_time (fst (run (map KeyDown (take m ts)) (init limit w))) \<and>
         total_active_time (fst (run (map KeyDown ts) (init limit w))) \<le> short_gaps None ts"
proof -
  let ?c = "run (map KeyDown (take n ts)) (init limit w)"
  define ys where "ys = take (m - n) (drop n ts)"
  have split: "take m ts = take n ts @ ys"
    using assms(2) take_add [of n "m - n" ts] by (simp add: ys_def)
  have "0 \<le> short_gaps (last_activity (fst ?c)) ys"
  proof (cases "take n ts = []")
    case True
    have "sorted ys" using assms(1) by (simp add: ys_def sorted_wrt_take sorted_wrt_drop)
    with True show ?thesis by (simp add: run_keys_last init_fields short_gaps_None_nonneg)
  next
    case False
    have "sorted (take m ts)" using assms(1) by (simp add: sorted_wrt_take)
    moreover from split False
    have "take m ts = butlast (take n ts) @ (last (take n ts) # ys)" by simp
    ultimately have "sorted (butlast (take n ts) @ (last (take n ts) # ys))" by simp
    then have "sorted (last (take n ts) # ys)" unfolding sorted_append by blast
    with False show ?thesis by (simp add: run_keys_last short_gaps_nonneg)
  qed
  moreover have "total_active_time (fst (run (map KeyDown (take m ts)) (init limit w)))
      = total_active_time (fst ?c) + short_gaps (last_activity (fst ?c)) ys"
    by (simp add: split run_append run_keys_total)
  moreover have "total_active_time (fst (run (map KeyDown ts) (init limit w))) = short_gaps None ts"
    by (simp add: run_keys_total init_fields)
  ultimately show ?thesis by simp
qed

theorem total_active_time_monotone_witness:
  "sorted [0, 500000, 3000000, 3400000 :: int] \<and> (1::nat) \<le> 3 \<and>
   total_active_time (fst (run (map KeyDown (take 1 [0, 500000, 3000000, 3400000])) (init 10000000 quiet)))
     \<le> total_active_time (fst (run (map KeyDown (take 3 [0, 500000, 3000000, 3400000])) (init 10000000 quiet))) \<and>
   total_active_time (fst (run (map KeyDown [0, 500000, 3000000, 3400000]) (init 10000000 quiet)))
     \<le> short_gaps None [0, 500000, 3000000, 3400000] \<and>
   short_gaps None [0, 500000, 3000000, 3400000] = 900000"
  using total_active_time_monotone [of "[0, 500000, 3000000, 3400000]" 1 3 10000000 quiet]
  by simp

section \<open>Which events reach the accounting\<close>

text \<open>
  C7. A mouse movement seen at time \<open>seen\<close> is passed on to \<^verbatim>\<open>handle_keyboard\<close> if and
  only if \<^verbatim>\<open>last_activity\<close> is unset or \<open>seen\<close> is more than 100 ms after it; otherwise
  it is dropped: nothing is raised and neither the monitor nor the world changes. So a
  movement 50 ms after the last activity is dropped and one 150 ms after it is accounted
  for; key and mouse-button events always are. The same in both files.
\<close>

theorem mouse_movement_accepted_iff:
  "handle_mouse_movement seen t (s, w) =
     (if (case last_activity s of None \<Rightarrow> True | Some prev \<Rightarrow> 100000 < seen - prev)
      then handle_keyboard t (s, w) else (None, s, w)) \<and>
   handle_mouse_movement1 seen t (s, w) =
     (if (case last_activity s of None \<Rightarrow> True | Some prev \<Rightarrow> 100000 < seen - prev)
      then handle_keyboard1 t (s, w) else (None, s, w)) \<and>
   handle_mouse_movement (prev + 50000) t (s\<lparr>last_activity := Some prev\<rparr>, w)
     = (None, s\<lparr>last_activity := Some prev\<rparr>, w) \<and>
   handle_mouse_movement1 (prev + 50000) t (s\<lparr>last_activity := Some prev\<rparr>, w)
     = (None, s\<lparr>last_activity := Some prev\<rparr>, w) \<and>
   last_activity (fst (snd (handle_mouse_movement (prev + 150000) t
     (s\<lparr>last_activity := Some prev\<rparr>, w)))) = Some t \<and>
   last_activity (fst (snd (handle_mouse_movement1 (prev + 150000) t
     (s\<lparr>last_activity := Some prev\<rparr>, w)))) = Some t \<and>
   last_activity (fst (snd (handle_keyboard t (s, w)))) = Some t \<and>
   last_activity (fst (snd (handle_keyboard1 t (s, w)))) = Some t \<and>
   handle_mouse_click t (s, w) = handle_keyboard t (s, w) \<and>
   handle_mouse_click1 t (s, w) = handle_keyboard1 t (s, w)"
  by (simp add: handle_mouse_movement_def handle_mouse_movement1_def moved_enough_def
      handle_mouse_click_def handle_mouse_click1_def handle_keyboard_keeps
      handle_keyboard1_keeps note_activity_last)

section \<open>The monitor after the limit check\<close>

lemma and_then_monitor:
  "fst (snd (and_then f g c)) =
     (case fst (f c) of None \<Rightarrow> fst (snd (g (snd (f c)))) | Some e \<Rightarrow> fst (snd (f c)))"
  by (simp add: and_then_def split: prod.split option.split)

lemma and_then_raised:
  "fst (and_then f g c) = (case fst (f c) of None \<Rightarrow> fst (g (snd (f c))) | Some e \<Rightarrow> Some e)"
  by (simp add: and_then_def split: prod.split option.split)

lemma and_then_world:
  "snd (snd (and_then f g c)) =
     (case fst (f c) of None \<Rightarrow> snd (snd (g (snd (f c)))) | Some e \<Rightarrow> snd (snd (f c)))"
  by (simp add: and_then_def split: prod.split option.split)

lemma alert_once_monitor:
  "fst (snd (alert_once c)) = fst c \<or>
   fst (snd (alert_once c)) = (fst c)\<lparr>alert_count := alert_count (fst c) + 1\<rparr>"
  by (simp add: alert_once_def and_then_monitor case_prod_beta play_alert_monitor
      log_activity_monitor split: option.split)

lemma end_session_monitor: "fst (snd (end_session c)) = (fst c)\<lparr>running := False\<rparr>"
  by (simp add: end_session_def and_then_monitor case_prod_beta log_activity_monitor
      split: option.split)

lemma check_time_limit_monitor:
  "\<exists>n b. fst (snd (check_time_limit c)) = (fst c)\<lparr>alert_count := n, running := b\<rparr> \<and>
     (n = alert_count (fst c) \<or>
      n = alert_count (fst c) + 1 \<and> alert_count (fst c) < max_alerts (fst c)) \<and>
     (b = running (fst c) \<or> \<not> b \<and> max_alerts (fst c) \<le> n)"
proof (cases "time_limit (fst c) \<le> total_active_time (fst c)")
  case False
  then have "fst (snd (check_time_limit c)) = fst c" by (simp add: check_time_limit_def)
  then have "fst (snd (check_time_limit c))
      = (fst c)\<lparr>alert_count := alert_count (fst c), running := running (fst c)\<rparr>" by simp
  then show ?thesis by blast
next
  case True
  let ?a = "\<lambda>c1. if alert_count (fst c1) < max_alerts (fst c1) then alert_once c1 else (None, c1)"
  let ?e = "\<lambda>c2. if max_alerts (fst c2) \<le> alert_count (fst c2) then end_session c2 else (None, c2)"
  have ctl: "check_time_limit c = and_then ?a ?e c" using True by (simp add: check_time_limit_def)
  obtain n where n: "fst (snd (?a c)) = (fst c)\<lparr>alert_count := n\<rparr>"
    and n': "n = alert_count (fst c) \<or>
      n = alert_count (fst c) + 1 \<and> alert_count (fst c) < max_alerts (fst c)"
  proof (cases "alert_count (fst c) < max_alerts (fst c)")
    case False
    then have "fst (snd (?a c)) = (fst c)\<lparr>alert_count := alert_count (fst c)\<rparr>" by simp
    then show ?thesis using that by blast
  next
    case True
    from alert_once_monitor [of c] show ?thesis
    proof
      assume "fst (snd (alert_once c)) = fst c"
      with True have "fst (snd (?a c)) = (fst c)\<lparr>alert_count := alert_count (fst c)\<rparr>" by simp
      then show ?thesis using that by blast
    next
      assume "fst (snd (alert_once c)) = (fst c)\<lparr>alert_count := alert_count (fst c) + 1\<rparr>"
      with True have "fst (snd (?a c)) = (fst c)\<lparr>alert_count := alert_count (fst c) + 1\<rparr>" by simp
      then show ?thesis using that True by blast
    qed
  qed
  show ?thesis
  proof (cases "fst (?a c)")
    case (Some e)
    then have "fst (snd (check_time_limit c)) = (fst c)\<lparr>alert_count := n, running := running (fst c)\<rparr>"
      unfolding ctl and_then_monitor using n by simp
    with n' show ?thesis by blast
  next
    case None
    show ?thesis
    proof (cases "max_alerts (fst c) \<le> n")
      case True
      with None have "fst (snd (check_time_limit c)) = (fst c)\<lparr>alert_count := n, running := False\<rparr>"
        unfolding ctl and_then_monitor using n by (simp add: end_session_monitor)
      with n' True show ?thesis by blast
    next
      case False
      with None have "fst (snd (check_time_limit c)) = (fst c)\<lparr>alert_count := n, running := running (fst c)\<rparr>"
        unfolding ctl and_then_monitor using n by simp
      with n' show ?thesis by blast
    qed
  qed
qed

section \<open>The limit check in a dependable world\<close>

text \<open>
  When the sound player can be tried and the log can be written, nothing is raised, and
  the effects of each call can be listed.
\<close>

lemma dependable_shift:
  "dependable w \<Longrightarrow> dependable (snd (datetime_now w))"
  "dependable w \<Longrightarrow> dependable (snd (subprocess_run w))"
  "dependable w \<Longrightarrow> dependable (snd (open_append w))"
  "dependable w \<Longrightarrow> dependable (emit e w)"
  by (simp_all add: dependable_def datetime_now_def subprocess_run_def open_append_def emit_def)

lemma dependable_answers:
  "dependable w \<Longrightarrow> fst (subprocess_run w) \<noteq> SpawnFailed"
  "dependable w \<Longrightarrow> fst (open_append w) = Written"
  by (simp_all add: dependable_def subprocess_run_def open_append_def)

lemma out_shift:
  "out (snd (datetime_now w)) = out w"
  "out (snd (subprocess_run w)) = out w"
  "out (snd (open_append w)) = out w"
  "out (emit e w) = out w @ [e]"
  by (simp_all add: datetime_now_def subprocess_run_def open_append_def emit_def)

lemma truediv_floored: "truediv a (max 1 b) = Inr (a / max 1 b)"
  by (simp add: truediv_def max_def)

lemma play_alert_dependable:
  assumes "dependable w"
  obtains e w' where "play_alert (s, w) = (None, s, w')" and "is_alert e"
    and "out w' = out w @ [e]" and "dependable w'"
proof (cases "fst (subprocess_run w)")
  case (Exited rc)
  then have "play_alert (s, w) = (None, s, emit (Paplay rc) (snd (subprocess_run w)))"
    by (simp add: play_alert_def case_prod_beta)
  then show ?thesis using that [of _ "Paplay rc"] assms by (simp add: dependable_shift out_shift)
next
  case NotFound
  then have "play_alert (s, w) = (None, s, emit Bell (snd (subprocess_run w)))"
    by (simp add: play_alert_def case_prod_beta)
  then show ?thesis using that [of _ Bell] assms by (simp add: dependable_shift out_shift)
next
  case SpawnFailed
  with dependable_answers(1) [OF assms] show ?thesis by simp
qed

lemma log_activity_written:
  assumes "fst (open_append (snd (datetime_now w))) = Written"
  shows "log_activity label (s, w) =
    (None, s, emit (LogWrite (log_text label s (max 0 (time_limit s - total_active_time s))
        (fst (datetime_now w) - start_time s)
        (fst (datetime_now (snd (open_append (snd (datetime_now w))))))
        (total_seconds (total_active_time s)
           / max 1 (total_seconds (fst (datetime_now w) - start_time s)))))
      (snd (datetime_now (snd (open_append (snd (datetime_now w)))))))"
  using assms by (simp add: log_activity_def Let_def case_prod_beta truediv_floored)

lemma event_type_log_text [simp]: "event_type (log_text label s r d t q) = label"
  by (simp add: log_text_def)

lemma log_activity_dependable:
  assumes "dependable w"
  obtains r w' where "log_activity label (s, w) = (None, s, w')" and "event_type r = label"
    and "out w' = out w @ [LogWrite r]" and "dependable w'"
proof -
  define w3 where "w3 = snd (datetime_now (snd (open_append (snd (datetime_now w)))))"
  define r where "r = log_text label s (max 0 (time_limit s - total_active_time s))
        (fst (datetime_now w) - start_time s)
        (fst (datetime_now (snd (open_append (snd (datetime_now w))))))
        (total_seconds (total_active_time s)
           / max 1 (total_seconds (fst (datetime_now w) - start_time s)))"
  have "fst (open_append (snd (datetime_now w))) = Written"
    using assms by (simp add: dependable_shift dependable_answers)
  then have 1: "log_activity label (s, w) = (None, s, emit (LogWrite r) w3)"
    unfolding r_def w3_def by (rule log_activity_written)
  have 2: "event_type r = label" by (simp add: r_def)
  have 3: "out (emit (LogWrite r) w3) = out w @ [LogWrite r]" by (simp add: w3_def out_shift)
  have 4: "dependable (emit (LogWrite r) w3)" using assms by (simp add: w3_def dependable_shift)
  from 1 2 3 4 show ?thesis by (rule that)
qed

lemma log_activity1_dependable:
  assumes "dependable w"
  obtains t w' where "log_activity1 (s, w) = (None, s, w')"
    and "out w' = out w @ [LogLine t (total_active_time s)]" and "dependable w'"
proof -
  let ?w1 = "snd (open_append w)"
  let ?w2 = "snd (datetime_now ?w1)"
  have io: "fst (open_append w) = Written" using assms by (simp add: dependable_answers)
  have "log_activity1 (s, w) = (None, s, emit (LogLine (fst (datetime_now ?w1)) (total_active_time s)) ?w2)"
    using io by (simp add: log_activity1_def Let_def case_prod_beta)
  then show ?thesis using that [of "emit (LogLine (fst (datetime_now ?w1)) (total_active_time s)) ?w2"] assms
    by (simp add: dependable_shift out_shift)
qed


lemma alert_once_dependable:
  assumes "dependable w"
  obtains e r w' where "alert_once (s, w) = (None, s\<lparr>alert_count := alert_count s + 1\<rparr>, w')"
    and "is_alert e" and "event_type r = ''Time Limit Alert''"
    and "out w' = out w @ [e, LogWrite r]" and "dependable w'"
proof -
  from assms obtain e w1 where 1: "play_alert (s, w) = (None, s, w1)" and e: "is_alert e"
    and o1: "out w1 = out w @ [e]" and d1: "dependable w1"
    by (rule play_alert_dependable)
  from d1 obtain r w2 where 2: "log_activity ''Time Limit Alert''
        (s\<lparr>alert_count := alert_count s + 1\<rparr>, w1) = (None, s\<lparr>alert_count := alert_count s + 1\<rparr>, w2)"
    and r: "event_type r = ''Time Limit Alert''"
    and o2: "out w2 = out w1 @ [LogWrite r]" and d2: "dependable w2"
    by (rule log_activity_dependable)
  have "alert_once (s, w) = (None, s\<lparr>alert_count := alert_count s + 1\<rparr>, w2)"
    by (simp add: alert_once_def and_then_def 1 2)
  moreover have "out w2 = out w @ [e, LogWrite r]" by (simp add: o1 o2)
  ultimately show ?thesis using e r d2 that by blast
qed

lemma end_session_dependable:
  assumes "dependable w"
  obtains r w' where "end_session (s, w) = (None, s\<lparr>running := False\<rparr>, w')"
    and "event_type r = ''Session Ended - Time Limit Reached''"
    and "out w' = out w @ [LogWrite r, PrintLimitReached (time_limit s) True, HookCancel]"
    and "dependable w'"
proof -
  from assms obtain r w1 where 1: "log_activity ''Session Ended - Time Limit Reached''
        (s\<lparr>running := False\<rparr>, w) = (None, s\<lparr>running := False\<rparr>, w1)"
    and r: "event_type r = ''Session Ended - Time Limit Reached''"
    and o1: "out w1 = out w @ [LogWrite r]" and d1: "dependable w1"
    by (rule log_activity_dependable)
  let ?w' = "emit HookCancel (emit (PrintLimitReached (time_limit s) True) w1)"
  have "end_session (s, w) = (None, s\<lparr>running := False\<rparr>, ?w')"
    by (simp add: end_session_def and_then_def 1)
  moreover have "out ?w' = out w @ [LogWrite r, PrintLimitReached (time_limit s) True, HookCancel]"
    by (simp add: out_shift o1)
  moreover have "dependable ?w'" using d1 by (simp add: dependable_shift)
  ultimately show ?thesis using r that by blast
qed

lemma check_time_limit_below:
  "\<not> time_limit s \<le> total_active_time s \<Longrightarrow> check_time_limit (s, w) = (None, s, w)"
  by (simp add: check_time_limit_def)

lemma check_time_limit_alert:
  assumes "dependable w" and "time_limit s \<le> total_active_time s"
    and "alert_count s + 1 < max_alerts s"
  obtains e r w' where "check_time_limit (s, w) = (None, s\<lparr>alert_count := alert_count s + 1\<rparr>, w')"
    and "is_alert e" and "event_type r = ''Time Limit Alert''"
    and "out w' = out w @ [e, LogWrite r]" and "dependable w'"
proof -
  from assms(1) obtain e r w' where 1: "alert_once (s, w) = (None, s\<lparr>alert_count := alert_count s + 1\<rparr>, w')"
    and rest: "is_alert e" "event_type r = ''Time Limit Alert''"
      "out w' = out w @ [e, LogWrite r]" "dependable w'"
    by (rule alert_once_dependable)
  have "check_time_limit (s, w) = (None, s\<lparr>alert_count := alert_count s + 1\<rparr>, w')"
    using assms(2,3) by (simp add: check_time_limit_def and_then_def 1)
  then show ?thesis using rest by (rule that)
qed

lemma check_time_limit_last_alert:
  assumes "dependable w" and "time_limit s \<le> total_active_time s"
    and "max_alerts s = alert_count s + 1"
  obtains e r r' w' where
    "check_time_limit (s, w) = (None, s\<lparr>alert_count := alert_count s + 1, running := False\<rparr>, w')"
    and "is_alert e" and "event_type r = ''Time Limit Alert''"
    and "event_type r' = ''Session Ended - Time Limit Reached''"
    and "out w' = out w @ [e, LogWrite r, LogWrite r', PrintLimitReached (time_limit s) True, HookCancel]"
    and "dependable w'"
proof -
  let ?s1 = "s\<lparr>alert_count := alert_count s + 1\<rparr>"
  from assms(1) obtain e r w1 where 1: "alert_once (s, w) = (None, ?s1, w1)"
    and e: "is_alert e" and r: "event_type r = ''Time Limit Alert''"
    and o1: "out w1 = out w @ [e, LogWrite r]" and d1: "dependable w1"
    by (rule alert_once_dependable)
  from d1 obtain r' w2 where 2: "end_session (?s1, w1) = (None, ?s1\<lparr>running := False\<rparr>, w2)"
    and r': "event_type r' = ''Session Ended - Time Limit Reached''"
    and o2: "out w2 = out w1 @ [LogWrite r', PrintLimitReached (time_limit ?s1) True, HookCancel]"
    and d2: "dependable w2"
    by (rule end_session_dependable)
  have "check_time_limit (s, w) = (None, s\<lparr>alert_count := alert_count s + 1, running := False\<rparr>, w2)"
    using assms(2,3) by (simp add: check_time_limit_def and_then_def 1 2)
  moreover have "out w2 = out w @ [e, LogWrite r, LogWrite r', PrintLimitReached (time_limit s) True, HookCancel]"
    by (simp add: o1 o2)
  ultimately show ?thesis using e r r' d2 that by blast
qed

lemma check_time_limit_stopped:
  assumes "dependable w" and "time_limit s \<le> total_active_time s"
    and "max_alerts s \<le> alert_count s"
  obtains r' w' where "check_time_limit (s, w) = (None, s\<lparr>running := False\<rparr>, w')"
    and "event_type r' = ''Session Ended - Time Limit Reached''"
    and "out w' = out w @ [LogWrite r', PrintLimitReached (time_limit s) True, HookCancel]"
    and "dependable w'"
proof -
  from assms(1) obtain r' w' where 2: "end_session (s, w) = (None, s\<lparr>running := False\<rparr>, w')"
    and rest: "event_type r' = ''Session Ended - Time Limit Reached''"
      "out w' = out w @ [LogWrite r', PrintLimitReached (time_limit s) True, HookCancel]"
      "dependable w'"
    by (rule end_session_dependable)
  have "check_time_limit (s, w) = (None, s\<lparr>running := False\<rparr>, w')"
    using assms(2,3) by (simp add: check_time_limit_def and_then_def 2)
  then show ?thesis using rest by (rule that)
qed

lemma check_log_update_dependable:
  assumes "dependable w"
  obtains t es w' where "check_log_update (s, w) = (None, s\<lparr>last_log_time := t\<rparr>, w')"
    and "es = [] \<or> (\<exists>r. es = [LogWrite r] \<and> event_type r = ''Regular Update'')"
    and "out w' = out w @ es" and "dependable w'"
proof (cases "log_interval s \<le> fst (datetime_now w) - last_log_time s")
  case False
  then have "check_log_update (s, w) = (None, s\<lparr>last_log_time := last_log_time s\<rparr>, snd (datetime_now w))"
    by (simp add: check_log_update_def case_prod_beta)
  moreover have "out (snd (datetime_now w)) = out w @ []" by (simp add: out_shift)
  moreover have "dependable (snd (datetime_now w))" using assms by (simp add: dependable_shift)
  ultimately show ?thesis using that by blast
next
  case True
  have "dependable (snd (datetime_now w))" using assms by (simp add: dependable_shift)
  then obtain r w' where 1: "log_activity ''Regular Update'' (s, snd (datetime_now w)) = (None, s, w')"
    and r: "event_type r = ''Regular Update''"
    and o: "out w' = out (snd (datetime_now w)) @ [LogWrite r]" and d: "dependable w'"
    by (rule log_activity_dependable)
  have "check_log_update (s, w) = (None, s\<lparr>last_log_time := fst (datetime_now w)\<rparr>, w')"
    using True by (simp add: check_log_update_def case_prod_beta and_then_def 1)
  moreover have "out w' = out w @ [LogWrite r]" using o by (simp add: out_shift)
  ultimately show ?thesis using that r d by blast
qed


lemma note_activity_keeps:
  "time_limit (note_activity t s) = time_limit s"
  "alert_count (note_activity t s) = alert_count s"
  "max_alerts (note_activity t s) = max_alerts s"
  "running (note_activity t s) = running s"
  by (simp_all add: note_activity_def Let_def split: option.split)

lemma count_append:
  "out w' = out w @ es \<Longrightarrow> count P w' = count P w + length (filter P es)"
  by (simp add: count_def)

lemma regular_update_uncounted:
  assumes "es = [] \<or> (\<exists>r. es = [LogWrite r] \<and> event_type r = ''Regular Update'')"
  shows "filter is_alert es = []" and "filter (is_record ''Time Limit Alert'') es = []"
    and "filter (is_record ''Session Ended - Time Limit Reached'') es = []"
    and "filter is_closing es = []" and "filter (\<lambda>e. e = HookCancel) es = []"
  using assms by auto

lemma alert_only:
  assumes "is_alert e"
  shows "\<not> is_record label e" and "\<not> is_closing e" and "e \<noteq> HookCancel" and "\<not> is_line e"
  using assms by (cases e; simp)+

lemma escalated_step:
  assumes "escalated j c0 (s, w)"
  shows "escalated
    (j + (if time_limit (note_activity t s) \<le> total_active_time (note_activity t s) then 1 else 0))
    c0 (snd (handle_keyboard t (s, w)))"
proof -
  let ?s = "note_activity t s"
  from assms have dep: "dependable w" and max: "max_alerts ?s = 5"
    and ac: "alert_count ?s = int (min 5 j)" and run: "running ?s = (j < 5)"
    by (simp_all add: escalated_def note_activity_keeps)
  have hk: "handle_keyboard t (s, w) = and_then check_time_limit check_log_update (?s, w)"
    by (simp add: handle_keyboard_def)
  consider (below) "\<not> time_limit ?s \<le> total_active_time ?s"
    | (alert) "time_limit ?s \<le> total_active_time ?s" "j < 4"
    | (last) "time_limit ?s \<le> total_active_time ?s" "j = 4"
    | (stopped) "time_limit ?s \<le> total_active_time ?s" "5 \<le> j"
    by linarith
  then show ?thesis
  proof cases
    case below
    then have 1: "check_time_limit (?s, w) = (None, ?s, w)" by (rule check_time_limit_below)
    from dep obtain tl es w' where 2: "check_log_update (?s, w) = (None, ?s\<lparr>last_log_time := tl\<rparr>, w')"
      and es: "es = [] \<or> (\<exists>r. es = [LogWrite r] \<and> event_type r = ''Regular Update'')"
      and o: "out w' = out w @ es" and d: "dependable w'"
      by (rule check_log_update_dependable)
    have "handle_keyboard t (s, w) = (None, ?s\<lparr>last_log_time := tl\<rparr>, w')"
      by (simp add: hk and_then_def 1 2)
    then show ?thesis using assms below d max ac run
      by (simp add: escalated_def count_append [OF o] regular_update_uncounted [OF es])
  next
    case alert
    then have "alert_count ?s + 1 < max_alerts ?s" by (simp add: max ac)
    with dep alert(1) obtain e r w1 where 1: "check_time_limit (?s, w) = (None, ?s\<lparr>alert_count := alert_count ?s + 1\<rparr>, w1)"
      and e: "is_alert e" and r: "event_type r = ''Time Limit Alert''"
      and o1: "out w1 = out w @ [e, LogWrite r]" and d1: "dependable w1"
      by (rule check_time_limit_alert)
    from d1 obtain tl es w' where 2: "check_log_update (?s\<lparr>alert_count := alert_count ?s + 1\<rparr>, w1)
        = (None, ?s\<lparr>alert_count := alert_count ?s + 1, last_log_time := tl\<rparr>, w')"
      and es: "es = [] \<or> (\<exists>r. es = [LogWrite r] \<and> event_type r = ''Regular Update'')"
      and o: "out w' = out w1 @ es" and d: "dependable w'"
      by (rule check_log_update_dependable)
    have "handle_keyboard t (s, w) = (None, ?s\<lparr>alert_count := alert_count ?s + 1, last_log_time := tl\<rparr>, w')"
      by (simp add: hk and_then_def 1 2)
    then show ?thesis using assms alert d max ac run e r
      by (simp add: escalated_def count_append [OF o] count_append [OF o1]
          regular_update_uncounted [OF es] alert_only)
  next
    case last
    then have "max_alerts ?s = alert_count ?s + 1" by (simp add: max ac)
    with dep last(1) obtain e r r' w1 where 1: "check_time_limit (?s, w)
        = (None, ?s\<lparr>alert_count := alert_count ?s + 1, running := False\<rparr>, w1)"
      and e: "is_alert e" and r: "event_type r = ''Time Limit Alert''"
      and r': "event_type r' = ''Session Ended - Time Limit Reached''"
      and o1: "out w1 = out w @ [e, LogWrite r, LogWrite r', PrintLimitReached (time_limit ?s) True, HookCancel]"
      and d1: "dependable w1"
      by (rule check_time_limit_last_alert)
    from d1 obtain tl es w' where 2: "check_log_update (?s\<lparr>alert_count := alert_count ?s + 1, running := False\<rparr>, w1)
        = (None, ?s\<lparr>alert_count := alert_count ?s + 1, running := False, last_log_time := tl\<rparr>, w')"
      and es: "es = [] \<or> (\<exists>r. es = [LogWrite r] \<and> event_type r = ''Regular Update'')"
      and o: "out w' = out w1 @ es" and d: "dependable w'"
      by (rule check_log_update_dependable)
    have "handle_keyboard t (s, w)
        = (None, ?s\<lparr>alert_count := alert_count ?s + 1, running := False, last_log_time := tl\<rparr>, w')"
      by (simp add: hk and_then_def 1 2)
    then show ?thesis using assms last d max ac run e r r'
      by (simp add: escalated_def count_append [OF o] count_append [OF o1]
          regular_update_uncounted [OF es] alert_only)
  next
    case stopped
    then have "max_alerts ?s \<le> alert_count ?s" by (simp add: max ac)
    with dep stopped(1) obtain r' w1 where 1: "check_time_limit (?s, w) = (None, ?s\<lparr>running := False\<rparr>, w1)"
      and r': "event_type r' = ''Session Ended - Time Limit Reached''"
      and o1: "out w1 = out w @ [LogWrite r', PrintLimitReached (time_limit ?s) True, HookCancel]"
      and d1: "dependable w1"
      by (rule check_time_limit_stopped)
    from d1 obtain tl es w' where 2: "check_log_update (?s\<lparr>running := False\<rparr>, w1)
        = (None, ?s\<lparr>running := False, last_log_time := tl\<rparr>, w')"
      and es: "es = [] \<or> (\<exists>r. es = [LogWrite r] \<and> event_type r = ''Regular Update'')"
      and o: "out w' = out w1 @ es" and d: "dependable w'"
      by (rule check_log_update_dependable)
    have "handle_keyboard t (s, w) = (None, ?s\<lparr>running := False, last_log_time := tl\<rparr>, w')"
      by (simp add: hk and_then_def 1 2)
    then show ?thesis using assms stopped d max ac run r'
      by (auto simp add: escalated_def count_append [OF o] count_append [OF o1]
          regular_update_uncounted [OF es])
  qed
qed


lemma breaches_cong:
  "last_activity s = last_activity s' \<Longrightarrow> total_active_time s = total_active_time s' \<Longrightarrow>
   time_limit s = time_limit s' \<Longrightarrow> breaches ts s = breaches ts s'"
proof (induction ts arbitrary: s s')
  case Nil
  show ?case by simp
next
  case (Cons t ts)
  have "last_activity (note_activity t s) = last_activity (note_activity t s')"
    by (simp add: note_activity_last)
  moreover have "total_active_time (note_activity t s) = total_active_time (note_activity t s')"
    using Cons.prems by (simp add: note_activity_total)
  moreover have "time_limit (note_activity t s) = time_limit (note_activity t s')"
    using Cons.prems by (simp add: note_activity_keeps)
  ultimately show ?case using Cons.IH [of "note_activity t s" "note_activity t s'"] by simp
qed

lemma breaches_after_handle_keyboard:
  "breaches ts (fst (snd (handle_keyboard t (s, w)))) = breaches ts (note_activity t s)"
  by (rule breaches_cong) (simp_all add: handle_keyboard_keeps)

lemma breaches_after_handle_keyboard1:
  "breaches ts (fst (snd (handle_keyboard1 t (s, w)))) = breaches ts (note_activity t s)"
  by (rule breaches_cong) (simp_all add: handle_keyboard1_keeps)

lemma escalated_run:
  "escalated j c0 c \<Longrightarrow> escalated (j + breaches ts (fst c)) c0 (run (map KeyDown ts) c)"
proof (induction ts arbitrary: j c)
  case Nil
  then show ?case by simp
next
  case (Cons t ts)
  obtain s w where c: "c = (s, w)" by (cases c)
  let ?b = "if time_limit (note_activity t s) \<le> total_active_time (note_activity t s) then 1 else 0 :: nat"
  from Cons.prems have "escalated (j + ?b) c0 (snd (handle_keyboard t (s, w)))"
    unfolding c by (rule escalated_step)
  then have "escalated (j + ?b + breaches ts (fst (snd (handle_keyboard t (s, w))))) c0
      (run (map KeyDown ts) (snd (handle_keyboard t (s, w))))"
    by (rule Cons.IH)
  then show ?case by (simp add: c breaches_after_handle_keyboard add.assoc)
qed

lemma check_time_limit1_below:
  "\<not> time_limit s \<le> total_active_time s \<Longrightarrow> check_time_limit1 (s, w) = (None, s, w)"
  by (simp add: check_time_limit1_def)

lemma check_time_limit1_reached:
  assumes "dependable w" and "time_limit s \<le> total_active_time s"
  obtains e t w' where "check_time_limit1 (s, w) = (None, s\<lparr>running := False\<rparr>, w')"
    and "is_alert e"
    and "out w' = out w @ [e, LogLine t (total_active_time s),
           PrintLimitReached (time_limit s) False, HookCancel]"
    and "dependable w'"
proof -
  let ?s = "s\<lparr>running := False\<rparr>"
  from assms(1) obtain e w1 where 1: "play_alert (?s, w) = (None, ?s, w1)" and e: "is_alert e"
    and o1: "out w1 = out w @ [e]" and d1: "dependable w1"
    by (rule play_alert_dependable)
  from d1 obtain t w2 where 2: "log_activity1 (?s, w1) = (None, ?s, w2)"
    and o2: "out w2 = out w1 @ [LogLine t (total_active_time ?s)]" and d2: "dependable w2"
    by (rule log_activity1_dependable)
  let ?w' = "emit HookCancel (emit (PrintLimitReached (time_limit s) False) w2)"
  have "check_time_limit1 (s, w) = (None, ?s, ?w')"
    using assms(2) by (simp add: check_time_limit1_def and_then_def 1 2)
  moreover have "out ?w' = out w @ [e, LogLine t (total_active_time s),
           PrintLimitReached (time_limit s) False, HookCancel]"
    by (simp add: out_shift o1 o2)
  moreover have "dependable ?w'" using d2 by (simp add: dependable_shift)
  ultimately show ?thesis using e that by blast
qed

lemma halted_step:
  assumes "halted j c0 (s, w)"
  shows "halted
    (j + (if time_limit (note_activity t s) \<le> total_active_time (note_activity t s) then 1 else 0))
    c0 (snd (handle_keyboard1 t (s, w)))"
proof (cases "time_limit (note_activity t s) \<le> total_active_time (note_activity t s)")
  case False
  then have "handle_keyboard1 t (s, w) = (None, note_activity t s, w)"
    by (simp add: handle_keyboard1_def check_time_limit1_below)
  then show ?thesis using assms False by (simp add: halted_def note_activity_keeps)
next
  case True
  from assms have "dependable w" by (simp add: halted_def)
  then obtain e t' w' where 1: "check_time_limit1 (note_activity t s, w)
      = (None, (note_activity t s)\<lparr>running := False\<rparr>, w')"
    and e: "is_alert e"
    and o: "out w' = out w @ [e, LogLine t' (total_active_time (note_activity t s)),
           PrintLimitReached (time_limit (note_activity t s)) False, HookCancel]"
    and d: "dependable w'"
    using True by (rule check_time_limit1_reached)
  have "handle_keyboard1 t (s, w) = (None, (note_activity t s)\<lparr>running := False\<rparr>, w')"
    by (simp add: handle_keyboard1_def 1)
  then show ?thesis using assms True d e
    by (simp add: halted_def count_append [OF o] alert_only)
qed

lemma halted_run:
  "halted j c0 c \<Longrightarrow> halted (j + breaches ts (fst c)) c0 (run1 (map KeyDown ts) c)"
proof (induction ts arbitrary: j c)
  case Nil
  then show ?case by simp
next
  case (Cons t ts)
  obtain s w where c: "c = (s, w)" by (cases c)
  let ?b = "if time_limit (note_activity t s) \<le> total_active_time (note_activity t s) then 1 else 0 :: nat"
  from Cons.prems have "halted (j + ?b) c0 (snd (handle_keyboard1 t (s, w)))"
    unfolding c by (rule halted_step)
  then have "halted (j + ?b + breaches ts (fst (snd (handle_keyboard1 t (s, w))))) c0
      (run1 (map KeyDown ts) (snd (handle_keyboard1 t (s, w))))"
    by (rule Cons.IH)
  then show ?case by (simp add: c breaches_after_handle_keyboard1 add.assoc)
qed

lemma init_world:
  "out (snd (init limit w)) = out w" "dependable w \<Longrightarrow> dependable (snd (init limit w))"
  "out (snd (init1 limit w)) = out w" "dependable w \<Longrightarrow> dependable (snd (init1 limit w))"
  by (simp_all add: init_def init1_def case_prod_beta out_shift dependable_shift)

lemma init1_fields:
  "last_activity (fst (init1 limit w)) = None"
  "total_active_time (fst (init1 limit w)) = 0"
  "time_limit (fst (init1 limit w)) = limit"
  "running (fst (init1 limit w))"
  by (simp_all add: init1_def datetime_now_def)

lemma escalated_init: "dependable w \<Longrightarrow> escalated 0 (init limit w) (init limit w)"
  by (simp add: escalated_def init_fields init_world)

lemma halted_init: "dependable w \<Longrightarrow> halted 0 (init1 limit w) (init1 limit w)"
  by (simp add: halted_def init1_fields init_world)

lemma dependable_quiet: "dependable quiet"
  by (simp add: dependable_def quiet_def)

lemma count_quiet: "count P quiet = 0"
  by (simp add: count_def quiet_def)

text \<open>
  C2, as the claim states it, fails: it speaks of any sequence of updates, and an update
  whose log write fails skips what comes after the write. Take the limit zero and a log
  file that \<^verbatim>\<open>start\<close> can still write but that cannot be opened afterwards. Five keys play
  five alerts and bring \<^verbatim>\<open>alert_count\<close> to 5, but each handler raises at its "Time Limit
  Alert" record: the fifth does not stop the session, and no "Session Ended" record is
  logged, nothing is printed and no cancellation is requested.
\<close>

theorem no_stop_when_log_fails:
  "fst (start (init 0 (quiet\<lparr>disk := (\<lambda>n. if n = 0 then Written else OpenFails)\<rparr>))) = None \<and>
   breaches [0, 100000, 200000, 300000, 400000]
     (fst (snd (start (init 0 (quiet\<lparr>disk := (\<lambda>n. if n = 0 then Written else OpenFails)\<rparr>)))))
     = 5 \<and>
   alert_count (fst (run (map KeyDown [0, 100000, 200000, 300000, 400000])
     (snd (start (init 0 (quiet\<lparr>disk := (\<lambda>n. if n = 0 then Written else OpenFails)\<rparr>))))))
     = 5 \<and>
   count is_alert (snd (run (map KeyDown [0, 100000, 200000, 300000, 400000])
     (snd (start (init 0 (quiet\<lparr>disk := (\<lambda>n. if n = 0 then Written else OpenFails)\<rparr>))))))
     = 5 \<and>
   running (fst (run (map KeyDown [0, 100000, 200000, 300000, 400000])
     (snd (start (init 0 (quiet\<lparr>disk := (\<lambda>n. if n = 0 then Written else OpenFails)\<rparr>)))))) \<and>
   count (is_record ''Session Ended - Time Limit Reached'')
     (snd (run (map KeyDown [0, 100000, 200000, 300000, 400000])
       (snd (start (init 0 (quiet\<lparr>disk := (\<lambda>n. if n = 0 then Written else OpenFails)\<rparr>))))))
     = 0 \<and>
   count is_closing (snd (run (map KeyDown [0, 100000, 200000, 300000, 400000])
     (snd (start (init 0 (quiet\<lparr>disk := (\<lambda>n. if n = 0 then Written else OpenFails)\<rparr>))))))
     = 0 \<and>
   count (\<lambda>e. e = HookCancel) (snd (run (map KeyDown [0, 100000, 200000, 300000, 400000])
     (snd (start (init 0 (quiet\<lparr>disk := (\<lambda>n. if n = 0 then Written else OpenFails)\<rparr>))))))
     = 0"
  by (simp add: start_def init_def datetime_now_def quiet_def note_activity_def
      handle_keyboard_def and_then_def check_time_limit_def alert_once_def play_alert_def
      subprocess_run_def emit_def log_activity_def open_append_def count_def truediv_def
      total_seconds_def log_text_def)

text \<open>
  C2, amended. In a dependable world, let \<open>k\<close> be the number of update cycles of a run from a
  fresh monitor in which the active time is at or above the limit. Under the escalating
  policy of \<^verbatim>\<open>dailytimespend.py\<close> (\<^verbatim>\<open>max_alerts = 5\<close>) the alerts played, the
  "Time Limit Alert" records and \<^verbatim>\<open>alert_count\<close> are \<open>min 5 k\<close>, the session is running
  exactly as long as \<open>k < 5\<close>, and "Session Ended" records, closing messages and hook
  cancellations number \<open>k - 4\<close>: none before the fifth such cycle, one at the fifth.
  Under the immediate policy of \<^verbatim>\<open>dailytimespend1.py\<close> the session is running exactly as
  long as \<open>k = 0\<close>, and every such cycle, so the first, plays one alert, writes one log
  line, prints one closing message and requests one cancellation.
\<close>

theorem alerts_and_stop:
  fixes ts :: "datetime list" and limit :: timedelta and w :: world
  defines "k \<equiv> breaches ts (fst (init limit w))"
    and "c \<equiv> run (map KeyDown ts) (init limit w)"
    and "k1 \<equiv> breaches ts (fst (init1 limit w))"
    and "c1 \<equiv> run1 (map KeyDown ts) (init1 limit w)"
  assumes "dependable w"
  shows "alert_count (fst c) = int (min 5 k) \<and>
    count is_alert (snd c) = count is_alert w + min 5 k \<and>
    count (is_record ''Time Limit Alert'') (snd c)
      = count (is_record ''Time Limit Alert'') w + min 5 k \<and>
    running (fst c) = (k < 5) \<and>
    count (is_record ''Session Ended - Time Limit Reached'') (snd c)
      = count (is_record ''Session Ended - Time Limit Reached'') w + (k - 4) \<and>
    count is_closing (snd c) = count is_closing w + (k - 4) \<and>
    count (\<lambda>e. e = HookCancel) (snd c) = count (\<lambda>e. e = HookCancel) w + (k - 4) \<and>
    running (fst c1) = (k1 = 0) \<and>
    count is_alert (snd c1) = count is_alert w + k1 \<and>
    count is_line (snd c1) = count is_line w + k1 \<and>
    count is_closing (snd c1) = count is_closing w + k1 \<and>
    count (\<lambda>e. e = HookCancel) (snd c1) = count (\<lambda>e. e = HookCancel) w + k1"
proof -
  have cw: "count P (snd (init limit w)) = count P w" "count P (snd (init1 limit w)) = count P w" for P
    by (simp_all add: count_def init_world)
  from assms(5) have "escalated 0 (init limit w) (init limit w)" by (rule escalated_init)
  then have "escalated (0 + k) (init limit w) c" unfolding k_def c_def by (rule escalated_run)
  moreover from assms(5) have "halted 0 (init1 limit w) (init1 limit w)" by (rule halted_init)
  then have "halted (0 + k1) (init1 limit w) c1" unfolding k1_def c1_def by (rule halted_run)
  ultimately show ?thesis by (simp add: escalated_def halted_def cw)
qed

theorem alerts_and_stop_witness:
  "dependable quiet \<and>
   breaches [0, 500000, 1000000, 1500000, 2000000, 2500000, 3000000] (fst (init 1000000 quiet)) = 5 \<and>
   alert_count (fst (run (map KeyDown [0, 500000, 1000000, 1500000, 2000000, 2500000, 3000000])
     (init 1000000 quiet))) = 5 \<and>
   count is_alert (snd (run (map KeyDown [0, 500000, 1000000, 1500000, 2000000, 2500000, 3000000])
     (init 1000000 quiet))) = 5 \<and>
   \<not> running (fst (run (map KeyDown [0, 500000, 1000000, 1500000, 2000000, 2500000, 3000000])
     (init 1000000 quiet))) \<and>
   count (is_record ''Session Ended - Time Limit Reached'')
     (snd (run (map KeyDown [0, 500000, 1000000, 1500000, 2000000, 2500000, 3000000])
       (init 1000000 quiet))) = 1 \<and>
   count (\<lambda>e. e = HookCancel)
     (snd (run (map KeyDown [0, 500000, 1000000, 1500000, 2000000, 2500000, 3000000])
       (init 1000000 quiet))) = 1 \<and>
   breaches [0, 500000, 1000000, 1500000, 2000000, 2500000] (fst (init 1000000 quiet)) = 4 \<and>
   running (fst (run (map KeyDown [0, 500000, 1000000, 1500000, 2000000, 2500000])
     (init 1000000 quiet))) \<and>
   breaches [0, 500000, 1000000] (fst (init1 1000000 quiet)) = 1 \<and>
   \<not> running (fst (run1 (map KeyDown [0, 500000, 1000000]) (init1 1000000 quiet))) \<and>
   count is_alert (snd (run1 (map KeyDown [0, 500000, 1000000]) (init1 1000000 quiet))) = 1 \<and>
   count is_line (snd (run1 (map KeyDown [0, 500000, 1000000]) (init1 1000000 quiet))) = 1 \<and>
   count is_closing (snd (run1 (map KeyDown [0, 500000, 1000000]) (init1 1000000 quiet))) = 1 \<and>
   count (\<lambda>e. e = HookCancel)
     (snd (run1 (map KeyDown [0, 500000, 1000000]) (init1 1000000 quiet))) = 1"
proof -
  have b5: "breaches [0, 500000, 1000000, 1500000, 2000000, 2500000, 3000000]
      (fst (init 1000000 quiet)) = 5"
    by (simp add: init_def datetime_now_def quiet_def note_activity_def)
  have b4: "breaches [0, 500000, 1000000, 1500000, 2000000, 2500000] (fst (init 1000000 quiet)) = 4"
    by (simp add: init_def datetime_now_def quiet_def note_activity_def)
  have b1: "breaches [0, 500000, 1000000] (fst (init1 1000000 quiet)) = 1"
    by (simp add: init1_def datetime_now_def quiet_def note_activity_def)
  show ?thesis
    using alerts_and_stop [OF dependable_quiet,
        of "[0, 500000, 1000000, 1500000, 2000000, 2500000, 3000000]" 1000000]
      alerts_and_stop [OF dependable_quiet, of "[0, 500000, 1000000, 1500000, 2000000, 2500000]" 1000000]
      alerts_and_stop [OF dependable_quiet, of "[0, 500000, 1000000]" 1000000]
    unfolding b5 b4 b1
    by (simp add: dependable_quiet count_quiet)
qed

section \<open>After the stop\<close>

text \<open>
  \<^verbatim>\<open>running\<close> is cleared only by the limit check, and only when \<^verbatim>\<open>alert_count\<close> has
  reached \<^verbatim>\<open>max_alerts\<close>; from then on the check leaves \<^verbatim>\<open>alert_count\<close> alone.
\<close>

lemma handle_keyboard_via_check:
  assumes "\<And>s t. P (s\<lparr>last_log_time := t\<rparr>) = P s"
  shows "P (fst (snd (handle_keyboard t (s, w))))
    = P (fst (snd (check_time_limit (note_activity t s, w))))"
  by (simp add: handle_keyboard_def and_then_monitor check_log_update_keeps assms
      split: option.split)

lemma handle_keyboard_stop:
  "max_alerts (fst (snd (handle_keyboard t (s, w)))) = max_alerts s \<and>
   (alert_count (fst (snd (handle_keyboard t (s, w)))) = alert_count s \<or>
    alert_count (fst (snd (handle_keyboard t (s, w)))) = alert_count s + 1
      \<and> alert_count s < max_alerts s) \<and>
   (running (fst (snd (handle_keyboard t (s, w)))) = running s \<or>
    \<not> running (fst (snd (handle_keyboard t (s, w))))
      \<and> max_alerts s \<le> alert_count (fst (snd (handle_keyboard t (s, w)))))"
proof -
  from check_time_limit_monitor [of "(note_activity t s, w)"]
  obtain n b where m: "fst (snd (check_time_limit (note_activity t s, w)))
      = (note_activity t s)\<lparr>alert_count := n, running := b\<rparr>"
    and n: "n = alert_count (note_activity t s) \<or>
      n = alert_count (note_activity t s) + 1
        \<and> alert_count (note_activity t s) < max_alerts (note_activity t s)"
    and b: "b = running (note_activity t s) \<or> \<not> b \<and> max_alerts (note_activity t s) \<le> n"
    unfolding fst_conv by blast
  have h: "alert_count (fst (snd (handle_keyboard t (s, w)))) = n"
    "running (fst (snd (handle_keyboard t (s, w)))) = b"
    "max_alerts (fst (snd (handle_keyboard t (s, w)))) = max_alerts s"
    by (simp_all add: handle_keyboard_via_check m note_activity_keeps)
  from n b show ?thesis unfolding h note_activity_keeps by (intro conjI refl)
qed

lemma progress_pass_keeps:
  assumes "\<And>s b. P (s\<lparr>is_active := b\<rparr>) = P s"
  shows "P (fst (snd (progress_pass flag c))) = P (fst c)"
  by (simp add: progress_pass_def Let_def case_prod_beta assms split: sum.split)

lemma deliver_cases:
  obtains (same) "alert_count (fst (deliver e c)) = alert_count (fst c)"
      and "running (fst (deliver e c)) = running (fst c)"
      and "max_alerts (fst (deliver e c)) = max_alerts (fst c)"
  | (update) t where "deliver e c = snd (handle_keyboard t c)"
proof (cases e)
  case (KeyDown t)
  then show ?thesis using update by simp
next
  case (MouseAllButtonsDown t)
  then show ?thesis using update by (simp add: handle_mouse_click_def)
next
  case (MouseMovement seen t)
  show ?thesis
  proof (cases "moved_enough seen (fst c)")
    case True
    with MouseMovement show ?thesis using update by (simp add: handle_mouse_movement_def)
  next
    case False
    with MouseMovement have "deliver e c = c" by (simp add: handle_mouse_movement_def)
    then show ?thesis using same by simp
  qed
qed

lemma deliver_stopped:
  assumes "\<not> running (fst c)" and "max_alerts (fst c) \<le> alert_count (fst c)"
  shows "\<not> running (fst (deliver e c)) \<and> alert_count (fst (deliver e c)) = alert_count (fst c)
    \<and> max_alerts (fst (deliver e c)) = max_alerts (fst c)"
proof (cases rule: deliver_cases [of e c])
  case same
  then show ?thesis using assms by simp
next
  case (update t)
  obtain s w where c: "c = (s, w)" by (cases c)
  from update have u: "fst (deliver e c) = fst (snd (handle_keyboard t (s, w)))" by (simp add: c)
  from assms have "fst c = s" by (simp add: c)
  then show ?thesis using handle_keyboard_stop [of t s w] assms unfolding u by auto
qed

lemma deliver_stop_inv:
  assumes "running (fst c) \<or> max_alerts (fst c) \<le> alert_count (fst c)"
  shows "running (fst (deliver e c)) \<or> max_alerts (fst (deliver e c)) \<le> alert_count (fst (deliver e c))"
proof (cases rule: deliver_cases [of e c])
  case same
  then show ?thesis using assms by simp
next
  case (update t)
  obtain s w where c: "c = (s, w)" by (cases c)
  from update have u: "fst (deliver e c) = fst (snd (handle_keyboard t (s, w)))" by (simp add: c)
  from assms have "fst c = s" by (simp add: c)
  then show ?thesis using handle_keyboard_stop [of t s w] assms unfolding u by auto
qed

lemma run_stop_inv:
  "running (fst c) \<or> max_alerts (fst c) \<le> alert_count (fst c) \<Longrightarrow>
   running (fst (run es c)) \<or> max_alerts (fst (run es c)) \<le> alert_count (fst (run es c))"
  by (induction es arbitrary: c) (simp_all add: deliver_stop_inv)

lemma run_stopped:
  "\<not> running (fst c) \<Longrightarrow> max_alerts (fst c) \<le> alert_count (fst c) \<Longrightarrow>
   \<not> running (fst (run es c)) \<and> alert_count (fst (run es c)) = alert_count (fst c)"
proof (induction es arbitrary: c)
  case Nil
  then show ?case by simp
next
  case (Cons e es)
  from deliver_stopped [OF Cons.prems, of e]
  have 1: "\<not> running (fst (deliver e c))"
    and 2: "alert_count (fst (deliver e c)) = alert_count (fst c)"
    and 3: "max_alerts (fst (deliver e c)) = max_alerts (fst c)" by simp_all
  from 2 3 Cons.prems(2) have "max_alerts (fst (deliver e c)) \<le> alert_count (fst (deliver e c))"
    by simp
  with 1 have "\<not> running (fst (run es (deliver e c))) \<and>
      alert_count (fst (run es (deliver e c))) = alert_count (fst (deliver e c))"
    by (rule Cons.IH)
  with 2 show ?case by simp
qed

lemma stopped_example:
  "\<not> running (fst (run (map KeyDown [0, 500000, 1000000, 1500000, 2000000, 2500000, 3000000])
     (init 1000000 quiet)))"
proof -
  define c where
    "c = run (map KeyDown [0, 500000, 1000000, 1500000, 2000000, 2500000, 3000000]) (init 1000000 quiet)"
  define c0 where "c0 = init 1000000 quiet"
  have b: "breaches [0, 500000, 1000000, 1500000, 2000000, 2500000, 3000000] (fst c0) = 5"
    by (simp add: c0_def init_def datetime_now_def quiet_def note_activity_def)
  have "escalated 0 c0 c0" unfolding c0_def using dependable_quiet by (rule escalated_init)
  then have "escalated
      (0 + breaches [0, 500000, 1000000, 1500000, 2000000, 2500000, 3000000] (fst c0)) c0 c"
    unfolding c_def c0_def [symmetric] by (rule escalated_run)
  then have "escalated 5 c0 c" unfolding b by simp
  then have "\<not> running (fst c)" by (simp add: escalated_def)
  then show ?thesis unfolding c_def .
qed

text \<open>
  In \<^verbatim>\<open>dailytimespend1.py\<close> nothing sets \<^verbatim>\<open>running\<close> but the limit check, which clears it.
\<close>

lemma handle_keyboard1_total:
  "total_active_time (fst (snd (handle_keyboard1 t c))) =
     total_active_time (fst c) + short_gaps (last_activity (fst c)) [t]"
  by (cases c) (simp add: handle_keyboard1_keeps note_activity_total)

lemma handle_keyboard1_last: "last_activity (fst (snd (handle_keyboard1 t c))) = Some t"
  by (cases c) (simp add: handle_keyboard1_keeps note_activity_last)

lemma run1_keys_total:
  "total_active_time (fst (run1 (map KeyDown ts) c)) =
     total_active_time (fst c) + short_gaps (last_activity (fst c)) ts"
proof (induction ts arbitrary: c)
  case Nil
  show ?case by simp
next
  case (Cons t ts)
  show ?case
    using Cons.IH [of "snd (handle_keyboard1 t c)"] short_gaps_Cons [of "last_activity (fst c)" t ts]
    by (simp add: handle_keyboard1_total handle_keyboard1_last)
qed

lemma run1_append: "run1 (xs @ ys) c = run1 ys (run1 xs c)"
  by (induction xs arbitrary: c) simp_all

lemma check_time_limit1_running:
  "\<not> running (fst c) \<Longrightarrow> \<not> running (fst (snd (check_time_limit1 c)))"
  by (simp add: check_time_limit1_def and_then_monitor case_prod_beta play_alert_monitor
      log_activity1_monitor split: option.split)

lemma deliver1_stopped: "\<not> running (fst c) \<Longrightarrow> \<not> running (fst (deliver1 e c))"
proof -
  assume stopped: "\<not> running (fst c)"
  obtain s w where c: "c = (s, w)" by (cases c)
  have key: "\<not> running (fst (snd (handle_keyboard1 t (s, w))))" for t
    using stopped check_time_limit1_running [of "(note_activity t s, w)"]
    by (simp add: c handle_keyboard1_def note_activity_keeps)
  show ?thesis
  proof (cases e)
    case (KeyDown t)
    with key show ?thesis by (simp add: c)
  next
    case (MouseAllButtonsDown t)
    with key show ?thesis by (simp add: c handle_mouse_click1_def)
  next
    case (MouseMovement seen t)
    with key stopped show ?thesis by (simp add: c handle_mouse_movement1_def)
  qed
qed

lemma run1_stopped: "\<not> running (fst c) \<Longrightarrow> \<not> running (fst (run1 es c))"
  by (induction es arbitrary: c) (simp_all add: deliver1_stopped)

lemma stopped_example1:
  "\<not> running (fst (run1 (map KeyDown [0, 500000, 1000000]) (init1 1000000 quiet)))"
proof -
  define c where "c = run1 (map KeyDown [0, 500000, 1000000]) (init1 1000000 quiet)"
  define c0 where "c0 = init1 1000000 quiet"
  have b: "breaches [0, 500000, 1000000] (fst c0) = 1"
    by (simp add: c0_def init1_def datetime_now_def quiet_def note_activity_def)
  have "halted 0 c0 c0" unfolding c0_def using dependable_quiet by (rule halted_init)
  then have "halted (0 + breaches [0, 500000, 1000000] (fst c0)) c0 c"
    unfolding c_def c0_def [symmetric] by (rule halted_run)
  then have "halted 1 c0 c" unfolding b by simp
  then have "\<not> running (fst c)" by (simp add: halted_def)
  then show ?thesis unfolding c_def .
qed

text \<open>
  C6, as the claim states it, fails in both files: no handler looks at \<^verbatim>\<open>running\<close>. With
  a limit of one second and a key every half second, the seventh key ends the session of
  \<^verbatim>\<open>dailytimespend.py\<close> with three seconds of active time, and the eighth key, half a
  second later, makes it three and a half; the third key ends the session of
  \<^verbatim>\<open>dailytimespend1.py\<close> with one second, and the fourth key makes it one and a half.
\<close>

theorem active_time_grows_after_stop:
  "\<not> running (fst (run (map KeyDown [0, 500000, 1000000, 1500000, 2000000, 2500000, 3000000])
     (init 1000000 quiet))) \<and>
   total_active_time (fst (run (map KeyDown [0, 500000, 1000000, 1500000, 2000000, 2500000, 3000000])
     (init 1000000 quiet))) = 3000000 \<and>
   total_active_time (fst (run
     (map KeyDown [0, 500000, 1000000, 1500000, 2000000, 2500000, 3000000, 3500000])
     (init 1000000 quiet))) = 3500000 \<and>
   \<not> running (fst (run1 (map KeyDown [0, 500000, 1000000]) (init1 1000000 quiet))) \<and>
   total_active_time (fst (run1 (map KeyDown [0, 500000, 1000000]) (init1 1000000 quiet)))
     = 1000000 \<and>
   total_active_time (fst (run1 (map KeyDown [0, 500000, 1000000, 1500000])
     (init1 1000000 quiet))) = 1500000"
proof -
  have 1: "short_gaps None [0, 500000, 1000000, 1500000, 2000000, 2500000, 3000000] = 3000000"
    by simp
  have 2: "short_gaps None [0, 500000, 1000000, 1500000, 2000000, 2500000, 3000000, 3500000] = 3500000"
    by simp
  have 3: "short_gaps None [0, 500000, 1000000] = 1000000" by simp
  have 4: "short_gaps None [0, 500000, 1000000, 1500000] = 1500000" by simp
  show ?thesis
    unfolding run_keys_total run1_keys_total init_fields init1_fields 1 2 3 4
    using stopped_example stopped_example1 by simp
qed

text \<open>
  C6, amended. Once \<^verbatim>\<open>running\<close> is false in a run from a fresh monitor, it stays false
  whatever events follow, in both files, and in \<^verbatim>\<open>dailytimespend.py\<close> \<^verbatim>\<open>alert_count\<close>
  keeps its value (\<^verbatim>\<open>dailytimespend1.py\<close> has no such counter). In both files
  \<^verbatim>\<open>total_active_time\<close> goes on growing by every gap of at most one second between the
  key events that follow.
\<close>

theorem alert_count_fixed_once_stopped:
  "(\<not> running (fst (run es (init limit w))) \<longrightarrow>
      \<not> running (fst (run (es @ es') (init limit w))) \<and>
      alert_count (fst (run (es @ es') (init limit w)))
        = alert_count (fst (run es (init limit w))) \<and>
      total_active_time (fst (run (es @ map KeyDown ts) (init limit w)))
        = total_active_time (fst (run es (init limit w)))
            + short_gaps (last_activity (fst (run es (init limit w)))) ts) \<and>
   (\<not> running (fst (run1 es (init1 limit w))) \<longrightarrow>
      \<not> running (fst (run1 (es @ es') (init1 limit w))) \<and>
      total_active_time (fst (run1 (es @ map KeyDown ts) (init1 limit w)))
        = total_active_time (fst (run1 es (init1 limit w)))
            + short_gaps (last_activity (fst (run1 es (init1 limit w)))) ts)"
proof (intro conjI impI)
  let ?c = "run es (init limit w)"
  assume stopped: "\<not> running (fst ?c)"
  have "running (fst ?c) \<or> max_alerts (fst ?c) \<le> alert_count (fst ?c)"
    by (rule run_stop_inv) (simp add: init_fields)
  with stopped have "max_alerts (fst ?c) \<le> alert_count (fst ?c)" by simp
  with stopped have *: "\<not> running (fst (run es' ?c)) \<and>
      alert_count (fst (run es' ?c)) = alert_count (fst ?c)"
    by (rule run_stopped)
  from * show "\<not> running (fst (run (es @ es') (init limit w)))" by (simp add: run_append)
  from * show "alert_count (fst (run (es @ es') (init limit w))) = alert_count (fst ?c)"
    by (simp add: run_append)
  show "total_active_time (fst (run (es @ map KeyDown ts) (init limit w)))
      = total_active_time (fst ?c) + short_gaps (last_activity (fst ?c)) ts"
    by (simp add: run_append run_keys_total)
next
  let ?c = "run1 es (init1 limit w)"
  assume "\<not> running (fst ?c)"
  then have "\<not> running (fst (run1 es' ?c))" by (rule run1_stopped)
  then show "\<not> running (fst (run1 (es @ es') (init1 limit w)))" by (simp add: run1_append)
  show "total_active_time (fst (run1 (es @ map KeyDown ts) (init1 limit w)))
      = total_active_time (fst ?c) + short_gaps (last_activity (fst ?c)) ts"
    by (simp add: run1_append run1_keys_total)
qed

theorem alert_count_fixed_once_stopped_witness:
  "\<not> running (fst (run (map KeyDown [0, 500000, 1000000, 1500000, 2000000, 2500000, 3000000])
     (init 1000000 quiet))) \<and>
   \<not> running (fst (run
     (map KeyDown [0, 500000, 1000000, 1500000, 2000000, 2500000, 3000000]
        @ [MouseMovement 3400000 3400000, KeyDown 3500000])
     (init 1000000 quiet))) \<and>
   alert_count (fst (run
     (map KeyDown [0, 500000, 1000000, 1500000, 2000000, 2500000, 3000000]
        @ [MouseMovement 3400000 3400000, KeyDown 3500000])
     (init 1000000 quiet)))
     = alert_count (fst (run (map KeyDown [0, 500000, 1000000, 1500000, 2000000, 2500000, 3000000])
         (init 1000000 quiet))) \<and>
   total_active_time (fst (run
     (map KeyDown [0, 500000, 1000000, 1500000, 2000000, 2500000, 3000000] @ map KeyDown [3500000])
     (init 1000000 quiet)))
     = total_active_time (fst (run (map KeyDown [0, 500000, 1000000, 1500000, 2000000, 2500000, 3000000])
         (init 1000000 quiet)))
       + short_gaps (last_activity (fst (run
           (map KeyDown [0, 500000, 1000000, 1500000, 2000000, 2500000, 3000000])
           (init 1000000 quiet)))) [3500000] \<and>
   \<not> running (fst (run1 (map KeyDown [0, 500000, 1000000]) (init1 1000000 quiet))) \<and>
   \<not> running (fst (run1
     (map KeyDown [0, 500000, 1000000] @ [MouseMovement 1400000 1400000, KeyDown 1500000])
     (init1 1000000 quiet))) \<and>
   total_active_time (fst (run1 (map KeyDown [0, 500000, 1000000] @ map KeyDown [1500000])
     (init1 1000000 quiet)))
     = total_active_time (fst (run1 (map KeyDown [0, 500000, 1000000]) (init1 1000000 quiet)))
       + short_gaps (last_activity (fst (run1 (map KeyDown [0, 500000, 1000000])
           (init1 1000000 quiet)))) [1500000]"
  using alert_count_fixed_once_stopped [of
      "map KeyDown [0, 500000, 1000000, 1500000, 2000000, 2500000, 3000000]" 1000000 quiet
      "[MouseMovement 3400000 3400000, KeyDown 3500000]" "[3500000]"]
    alert_count_fixed_once_stopped [of "map KeyDown [0, 500000, 1000000]" 1000000 quiet
      "[MouseMovement 1400000 1400000, KeyDown 1500000]" "[1500000]"]
    stopped_example stopped_example1
  by blast

section \<open>The remaining time in the reports\<close>

lemma dec_digits: "set (dec n) \<subseteq> set ''0123456789''"
proof (induction n rule: dec.induct)
  case (1 n)
  show ?case
  proof (cases "n < 10")
    case True
    then have "''0123456789'' ! n \<in> set ''0123456789''" by (intro nth_mem) simp
    with True show ?thesis by (subst dec.simps) simp
  next
    case False
    have "''0123456789'' ! (n mod 10) \<in> set ''0123456789''" by (intro nth_mem) simp
    with False 1 show ?thesis by (subst dec.simps) simp
  qed
qed

lemma fmt02d_digits: "0 \<le> n \<Longrightarrow> set (fmt02d n) \<subseteq> set ''0123456789''"
  using dec_digits [of "nat n"] by (simp add: fmt02d_def)

lemma format_timedelta_unsigned:
  assumes "0 \<le> td"
  shows "CHR ''-'' \<notin> set (format_timedelta td)"
proof -
  let ?t = "whole_seconds td"
  from assms have t: "0 \<le> ?t" by (simp add: whole_seconds_def)
  then have "0 \<le> ?t div 3600" and "0 \<le> (?t mod 3600) div 60" and "0 \<le> ?t mod 60"
    by (simp_all add: pos_imp_zdiv_nonneg_iff)
  then have "set (fmt02d (?t div 3600)) \<subseteq> set ''0123456789''"
    and "set (fmt02d ((?t mod 3600) div 60)) \<subseteq> set ''0123456789''"
    and "set (fmt02d (?t mod 60)) \<subseteq> set ''0123456789''"
    by (simp_all only: fmt02d_digits)
  then show ?thesis by (auto simp add: format_timedelta_def Let_def)
qed

lemma format_timedelta_0: "format_timedelta 0 = ''00:00:00''"
  by (simp add: format_timedelta_def whole_seconds_def fmt02d_def dec.simps)

lemma log_activity_open_fails:
  assumes "fst (open_append (snd (datetime_now w))) = OpenFails"
  shows "log_activity label (s, w) = (Some OSError, s, snd (open_append (snd (datetime_now w))))"
  using assms by (simp add: log_activity_def Let_def case_prod_beta)

lemma log_activity_write_fails:
  assumes "fst (open_append (snd (datetime_now w))) = WriteFails"
  shows "log_activity label (s, w) =
    (Some OSError, s, snd (datetime_now (snd (open_append (snd (datetime_now w))))))"
  using assms by (simp add: log_activity_def Let_def case_prod_beta truediv_floored)

lemma log_activity_outcome:
  obtains (raised) "log_activity label (s, w) = (Some OSError, s, snd (snd (log_activity label (s, w))))"
      and "fst (open_append (snd (datetime_now w))) \<noteq> Written"
      and "out (snd (snd (log_activity label (s, w)))) = out w"
  | (written) t t' q where "log_activity label (s, w) = (None, s, snd (snd (log_activity label (s, w))))"
      and "fst (open_append (snd (datetime_now w))) = Written"
      and "out (snd (snd (log_activity label (s, w)))) = out w @
        [LogWrite (log_text label s (max 0 (time_limit s - total_active_time s)) t t' q)]"
proof (cases "fst (open_append (snd (datetime_now w)))")
  case Written
  from log_activity_written [OF this, of label s] show ?thesis
    using written Written by (simp add: out_shift)
next
  case OpenFails
  from log_activity_open_fails [OF this, of label s] show ?thesis
    using raised OpenFails by (simp add: out_shift)
next
  case WriteFails
  from log_activity_write_fails [OF this, of label s] show ?thesis
    using raised WriteFails by (simp add: out_shift)
qed

lemma remaining_shown_log_text [simp]:
  "remaining_shown (log_text label s r d t q) = format_timedelta r"
  by (simp add: log_text_def)

text \<open>
  C8. Every log record that \<^verbatim>\<open>log_activity\<close> writes and every line that a pass of the
  progress loop draws shows, as remaining time, \<^verbatim>\<open>time_limit - total_active_time\<close>
  clamped below at zero, formatted: the record shows \<open>00:00:00\<close> when the active time is
  above the limit, the loop draws nothing then (the pass ends the loop), and what is shown
  never carries a minus sign. A call that writes or draws nothing adds no effect.
\<close>

theorem remaining_clamped_at_zero:
  "(fst (log_activity label (s, w)) = None \<longrightarrow>
      (\<exists>r. out (snd (snd (log_activity label (s, w)))) = out w @ [LogWrite r] \<and>
        remaining_shown r = format_timedelta (max 0 (time_limit s - total_active_time s)) \<and>
        (time_limit s < total_active_time s \<longrightarrow> remaining_shown r = ''00:00:00'') \<and>
        CHR ''-'' \<notin> set (remaining_shown r))) \<and>
   (fst (log_activity label (s, w)) \<noteq> None \<longrightarrow>
      out (snd (snd (log_activity label (s, w)))) = out w) \<and>
   (fst (progress_pass flag (s, w)) = Drawn \<longrightarrow>
      (\<exists>l. out (snd (snd (progress_pass flag (s, w)))) = out w @ [Draw l] \<and>
        remaining_drawn l = format_timedelta (max 0 (time_limit s - total_active_time s)) \<and>
        CHR ''-'' \<notin> set (remaining_drawn l))) \<and>
   (fst (progress_pass flag (s, w)) \<noteq> Drawn \<longrightarrow>
      out (snd (snd (progress_pass flag (s, w)))) = out w) \<and>
   (time_limit s < total_active_time s \<longrightarrow> fst (progress_pass flag (s, w)) = Stopped)"
proof -
  let ?r = "max 0 (time_limit s - total_active_time s)"
  have unsigned: "CHR ''-'' \<notin> set (format_timedelta ?r)"
    by (rule format_timedelta_unsigned) simp
  have zero: "time_limit s < total_active_time s \<Longrightarrow> format_timedelta ?r = ''00:00:00''"
    by (simp add: max_def format_timedelta_0)
  have log: "fst (log_activity label (s, w)) = None \<longrightarrow>
      (\<exists>r. out (snd (snd (log_activity label (s, w)))) = out w @ [LogWrite r] \<and>
        remaining_shown r = format_timedelta ?r \<and>
        (time_limit s < total_active_time s \<longrightarrow> remaining_shown r = ''00:00:00'') \<and>
        CHR ''-'' \<notin> set (remaining_shown r))"
  proof (cases rule: log_activity_outcome [of label s w])
    case raised
    then have "fst (log_activity label (s, w)) = Some OSError" by (metis fst_conv)
    then show ?thesis by simp
  next
    case (written t t' q)
    let ?e = "log_text label s ?r t t' q"
    have "remaining_shown ?e = format_timedelta ?r" by simp
    with written(3) unsigned zero show ?thesis by (intro impI exI [of _ ?e]) simp
  qed
  have log': "fst (log_activity label (s, w)) \<noteq> None \<longrightarrow>
      out (snd (snd (log_activity label (s, w)))) = out w"
  proof (cases rule: log_activity_outcome [of label s w])
    case raised
    then show ?thesis by simp
  next
    case (written t t' q)
    then have "fst (log_activity label (s, w)) = None" by (metis fst_conv)
    then show ?thesis by simp
  qed
  have draw: "fst (progress_pass flag (s, w)) = Drawn \<longrightarrow>
      (\<exists>l. out (snd (snd (progress_pass flag (s, w)))) = out w @ [Draw l] \<and>
        remaining_drawn l = format_timedelta ?r \<and> CHR ''-'' \<notin> set (remaining_drawn l))"
  proof
    assume d: "fst (progress_pass flag (s, w)) = Drawn"
    then have pos: "0 < time_limit s - total_active_time s"
      by (simp add: progress_pass_def Let_def split: if_splits sum.splits)
    then have r: "?r = time_limit s - total_active_time s" by simp
    from d obtain p where
      "out (snd (snd (progress_pass flag (s, w)))) = out w @
        [Draw (draw_line flag s (time_limit s - total_active_time s) p)]"
      by (auto simp add: progress_pass_def Let_def out_shift split: if_splits sum.splits)
    moreover have "remaining_drawn (draw_line flag s (time_limit s - total_active_time s) p)
        = format_timedelta ?r"
      unfolding r by (simp add: draw_line_def Let_def)
    ultimately show "\<exists>l. out (snd (snd (progress_pass flag (s, w)))) = out w @ [Draw l] \<and>
        remaining_drawn l = format_timedelta ?r \<and> CHR ''-'' \<notin> set (remaining_drawn l)"
      using unsigned by auto
  qed
  have draw': "fst (progress_pass flag (s, w)) \<noteq> Drawn \<longrightarrow>
      out (snd (snd (progress_pass flag (s, w)))) = out w"
    by (simp add: progress_pass_def Let_def out_shift split: if_splits sum.splits)
  have stop: "time_limit s < total_active_time s \<longrightarrow> fst (progress_pass flag (s, w)) = Stopped"
    by (simp add: progress_pass_def Let_def)
  from log log' draw draw' stop show ?thesis by (intro conjI)
qed


theorem remaining_clamped_at_zero_witness:
  "fst (log_activity ''Regular Update''
     ((fst (init 10000000 quiet))\<lparr>total_active_time := 12000000\<rparr>, quiet)) = None \<and>
   (\<exists>r. out (snd (snd (log_activity ''Regular Update''
       ((fst (init 10000000 quiet))\<lparr>total_active_time := 12000000\<rparr>, quiet)))) = [LogWrite r] \<and>
     remaining_shown r = ''00:00:00'') \<and>
   fst (progress_pass True
     ((fst (init 10000000 quiet))\<lparr>total_active_time := 12000000\<rparr>, quiet)) = Stopped \<and>
   fst (progress_pass True
     ((fst (init 10000000 quiet))\<lparr>total_active_time := 4000000\<rparr>, quiet)) = Drawn \<and>
   (\<exists>l. out (snd (snd (progress_pass True
       ((fst (init 10000000 quiet))\<lparr>total_active_time := 4000000\<rparr>, quiet)))) = [Draw l] \<and>
     remaining_drawn l = ''00:00:06'')"
proof -
  let ?s1 = "(fst (init 10000000 quiet))\<lparr>total_active_time := 12000000\<rparr>"
  let ?s2 = "(fst (init 10000000 quiet))\<lparr>total_active_time := 4000000\<rparr>"
  have 1: "fst (log_activity ''Regular Update'' (?s1, quiet)) = None"
    using log_activity_dependable [OF dependable_quiet, of "''Regular Update''" ?s1]
    by (metis fst_conv)
  have 2: "time_limit ?s1 < total_active_time ?s1" by (simp add: init_fields)
  have 3: "fst (progress_pass True (?s2, quiet)) = Drawn"
    by (simp add: progress_pass_def init_fields truediv_def total_seconds_def)
  have 4: "format_timedelta (max 0 (time_limit ?s2 - total_active_time ?s2)) = ''00:00:06''"
    by (simp add: init_fields format_timedelta_def whole_seconds_def fmt02d_def dec.simps)
  have 5: "out quiet = []" by (simp add: quiet_def)
  from remaining_clamped_at_zero [of "''Regular Update''" ?s1 quiet True]
    remaining_clamped_at_zero [of "''Regular Update''" ?s2 quiet True] 1 2 3
  show ?thesis unfolding 4 5 by auto
qed

section \<open>Failing side effects\<close>

lemma play_alert_not_found:
  "player w 0 = NotFound \<Longrightarrow> play_alert (s, w) = (None, s, emit Bell (snd (subprocess_run w)))"
  by (simp add: play_alert_def subprocess_run_def)

lemma play_alert_spawn_failed:
  "player w 0 = SpawnFailed \<Longrightarrow> fst (play_alert (s, w)) = Some OSError"
  by (simp add: play_alert_def subprocess_run_def)

lemma log_activity_unwritable:
  assumes "disk w 0 \<noteq> Written"
  shows "fst (log_activity label (s, w)) = Some OSError"
proof (cases rule: log_activity_outcome [of label s w])
  case raised
  then show ?thesis by (metis fst_conv)
next
  case (written t t' q)
  with assms show ?thesis by (simp add: open_append_def datetime_now_def)
qed

text \<open>
  C9, as the claim states it, fails: \<^verbatim>\<open>log_activity\<close> has no \<^verbatim>\<open>try\<close>. With a log file that
  cannot be opened, \<^verbatim>\<open>log_activity\<close> raises \<^verbatim>\<open>OSError\<close>; so does the handler of the first
  key once the limit is reached (here a limit of zero), and so does \<^verbatim>\<open>main\<close>, whose
  \<^verbatim>\<open>start\<close> writes the first record, for the command line \<open>1s\<close>.
\<close>

theorem log_failure_propagates:
  "fst (log_activity ''Time Limit Alert'' (fst (init 0 quiet), quiet\<lparr>disk := (\<lambda>n. OpenFails)\<rparr>))
     = Some OSError \<and>
   fst (handle_keyboard 0 (init 0 (quiet\<lparr>disk := (\<lambda>n. OpenFails)\<rparr>))) = Some OSError \<and>
   fst (main ''1s'' (quiet\<lparr>disk := (\<lambda>n. OpenFails)\<rparr>)) = Inl OSError"
proof -
  let ?w = "quiet\<lparr>disk := (\<lambda>n. OpenFails)\<rparr>"
  have 1: "fst (log_activity label (s, w)) = Some OSError" if "disk w 0 = OpenFails" for label s w
    using that by (simp add: log_activity_unwritable)
  have 2: "fst (handle_keyboard 0 (init 0 ?w)) = Some OSError"
    by (simp add: handle_keyboard_def init_def datetime_now_def quiet_def note_activity_def
        and_then_def check_time_limit_def alert_once_def play_alert_def subprocess_run_def
        emit_def log_activity_def open_append_def)
  have p: "parse_time_limit ''1s'' = Inr 1000000"
    by (simp add: parse_time_limit_def re_match_def pattern_def component_def is_digit_def
        timedelta_def int_or_0_def py_int_def int_of_digits_def)
  have 3: "fst (main ''1s'' ?w) = Inl OSError"
    by (simp add: main_def p start_def init_def datetime_now_def quiet_def
        and_then_def emit_def log_activity_def open_append_def is_ValueError_def)
  from 1 [of ?w] 2 3 show ?thesis by simp
qed

text \<open>
  C9, amended. When the sound player is not found, \<^verbatim>\<open>play_alert\<close> rings the terminal
  bell and raises nothing; when spawning it fails otherwise, \<^verbatim>\<open>play_alert\<close> raises
  \<^verbatim>\<open>OSError\<close>; when the log cannot be opened or written, \<^verbatim>\<open>log_activity\<close> raises
  \<^verbatim>\<open>OSError\<close> to its caller. Neither call changes \<^verbatim>\<open>running\<close>, failing or not.
\<close>

theorem side_effect_failures:
  "(player w 0 = NotFound \<longrightarrow>
      play_alert (s, w) = (None, s, emit Bell (snd (subprocess_run w)))) \<and>
   (player w 0 = SpawnFailed \<longrightarrow> fst (play_alert (s, w)) = Some OSError) \<and>
   (disk w 0 \<noteq> Written \<longrightarrow> fst (log_activity label (s, w)) = Some OSError) \<and>
   running (fst (snd (play_alert (s, w)))) = running s \<and>
   running (fst (snd (log_activity label (s, w)))) = running s"
  by (simp add: play_alert_not_found play_alert_spawn_failed log_activity_unwritable
      play_alert_monitor log_activity_monitor)

theorem side_effect_failures_witness:
  "player quiet 0 = NotFound \<and>
   play_alert (fst (init 0 quiet), quiet) = (None, fst (init 0 quiet), emit Bell (snd (subprocess_run quiet))) \<and>
   disk (quiet\<lparr>disk := (\<lambda>n. OpenFails)\<rparr>) 0 \<noteq> Written \<and>
   fst (log_activity ''Session Started'' (fst (init 0 quiet), quiet\<lparr>disk := (\<lambda>n. OpenFails)\<rparr>))
     = Some OSError \<and>
   player (quiet\<lparr>player := (\<lambda>n. SpawnFailed)\<rparr>) 0 = SpawnFailed \<and>
   fst (play_alert (fst (init 0 quiet), quiet\<lparr>player := (\<lambda>n. SpawnFailed)\<rparr>)) = Some OSError"
proof -
  have 1: "player quiet 0 = NotFound" by (simp add: quiet_def)
  have 2: "disk (quiet\<lparr>disk := (\<lambda>n. OpenFails)\<rparr>) 0 \<noteq> Written" by simp
  have 3: "player (quiet\<lparr>player := (\<lambda>n. SpawnFailed)\<rparr>) 0 = SpawnFailed" by simp
  from side_effect_failures [of quiet "fst (init 0 quiet)" "''Session Started''"]
    side_effect_failures [of "quiet\<lparr>disk := (\<lambda>n. OpenFails)\<rparr>" "fst (init 0 quiet)" "''Session Started''"]
    side_effect_failures [of "quiet\<lparr>player := (\<lambda>n. SpawnFailed)\<rparr>" "fst (init 0 quiet)" "''Session Started''"]
    1 2 3
  show ?thesis by blast
qed

section \<open>Divisions\<close>

text \<open>
  The program divides twice: by the session duration floored at one second, in the log
  text, and by the time limit, in a pass of the progress loop that found
  \<^verbatim>\<open>time_limit - total_active_time\<close> positive.
\<close>

lemma log_activity_no_zero_division: "fst (log_activity label c) \<noteq> Some ZeroDivisionError"
proof -
  obtain s w where c: "c = (s, w)" by (cases c)
  show ?thesis unfolding c
  proof (cases rule: log_activity_outcome [of label s w])
    case raised
    then have "fst (log_activity label (s, w)) = Some OSError" by (metis fst_conv)
    then show "fst (log_activity label (s, w)) \<noteq> Some ZeroDivisionError" by simp
  next
    case (written t t' q)
    then have "fst (log_activity label (s, w)) = None" by (metis fst_conv)
    then show "fst (log_activity label (s, w)) \<noteq> Some ZeroDivisionError" by simp
  qed
qed

lemma progress_pass_crashes_iff:
  "fst (progress_pass flag (s, w)) = Crashed e \<longleftrightarrow>
     e = ZeroDivisionError \<and> running s \<and> total_active_time s < 0 \<and> time_limit s = 0"
  by (auto simp add: progress_pass_def Let_def truediv_def total_seconds_def split: if_splits)

lemma deliver_time_limit: "time_limit (fst (deliver e c)) = time_limit (fst c)"
proof (cases e)
  case (KeyDown t)
  then show ?thesis by (cases c) (simp add: handle_keyboard_keeps note_activity_keeps)
next
  case (MouseAllButtonsDown t)
  then show ?thesis
    by (cases c) (simp add: handle_mouse_click_def handle_keyboard_keeps note_activity_keeps)
next
  case (MouseMovement seen t)
  then show ?thesis
    by (cases c) (simp add: handle_mouse_movement_def handle_keyboard_keeps note_activity_keeps)
qed

lemma deliver1_time_limit: "time_limit (fst (deliver1 e c)) = time_limit (fst c)"
proof (cases e)
  case (KeyDown t)
  then show ?thesis by (cases c) (simp add: handle_keyboard1_keeps note_activity_keeps)
next
  case (MouseAllButtonsDown t)
  then show ?thesis
    by (cases c) (simp add: handle_mouse_click1_def handle_keyboard1_keeps note_activity_keeps)
next
  case (MouseMovement seen t)
  then show ?thesis
    by (cases c) (simp add: handle_mouse_movement1_def handle_keyboard1_keeps note_activity_keeps)
qed

text \<open>
  The loop goes on only with a positive limit: its first pass finds an active time of
  zero and leaves the loop unless the limit is positive, and the limit never changes.
\<close>

lemma pass_on_sound:
  assumes "\<forall>e. fst lc \<noteq> Died e" and "fst lc = Looping \<longrightarrow> 0 < time_limit (fst (snd lc))"
  shows "(\<forall>e. fst (pass_on (progress_pass flag) lc) \<noteq> Died e) \<and>
    (fst (pass_on (progress_pass flag) lc) = Looping \<longrightarrow>
       0 < time_limit (fst (snd (pass_on (progress_pass flag) lc))))"
proof -
  obtain l s w where lc: "lc = (l, s, w)" by (metis prod_cases3)
  show ?thesis
  proof (cases l)
    case Looping
    with assms have pos: "0 < time_limit s" by (simp add: lc)
    obtain p c' where p: "progress_pass flag (s, w) = (p, c')" by (metis surj_pair)
    have "time_limit (fst c') = time_limit s"
      using progress_pass_keeps [of time_limit flag "(s, w)"] p by simp
    moreover have "p \<noteq> Crashed e" for e
      using progress_pass_crashes_iff [of flag s w e] p pos by auto
    ultimately show ?thesis using pos
      by (cases p) (simp_all add: lc Looping pass_on_def p)
  next
    case Ended
    then show ?thesis by (simp add: lc pass_on_def)
  next
    case (Died e)
    with assms show ?thesis by (simp add: lc)
  qed
qed

lemma first_pass_sound:
  assumes "total_active_time (fst c) = 0"
  shows "(\<forall>e. fst (pass_on (progress_pass flag) (Looping, c)) \<noteq> Died e) \<and>
    (fst (pass_on (progress_pass flag) (Looping, c)) = Looping \<longrightarrow>
       0 < time_limit (fst (snd (pass_on (progress_pass flag) (Looping, c)))))"
proof (cases "0 < time_limit (fst c)")
  case True
  then show ?thesis using pass_on_sound [of "(Looping, c)" flag] by simp
next
  case False
  obtain s w where c: "c = (s, w)" by (cases c)
  from False assms have "progress_pass flag (s, w) = (Stopped, s, w)"
    by (simp add: c progress_pass_def)
  then show ?thesis by (simp add: c pass_on_def)
qed

lemma happen_sound:
  assumes "\<forall>e. fst lc \<noteq> Died e" and "fst lc = Looping \<longrightarrow> 0 < time_limit (fst (snd lc))"
  shows "(\<forall>e. fst (happen h lc) \<noteq> Died e) \<and>
    (fst (happen h lc) = Looping \<longrightarrow> 0 < time_limit (fst (snd (happen h lc))))"
proof (cases h)
  case (Hook e)
  with assms show ?thesis by (simp add: deliver_time_limit)
next
  case Pass
  with pass_on_sound [OF assms, of True] show ?thesis by (simp add: draw_progress_bar_pass_def)
qed

lemma happen1_sound:
  assumes "\<forall>e. fst lc \<noteq> Died e" and "fst lc = Looping \<longrightarrow> 0 < time_limit (fst (snd lc))"
  shows "(\<forall>e. fst (happen1 h lc) \<noteq> Died e) \<and>
    (fst (happen1 h lc) = Looping \<longrightarrow> 0 < time_limit (fst (snd (happen1 h lc))))"
proof (cases h)
  case (Hook e)
  with assms show ?thesis by (simp add: deliver1_time_limit)
next
  case Pass
  with pass_on_sound [OF assms, of False] show ?thesis by (simp add: draw_progress_bar_pass1_def)
qed

lemma happenings_sound:
  "(\<forall>e. fst lc \<noteq> Died e) \<and> (fst lc = Looping \<longrightarrow> 0 < time_limit (fst (snd lc))) \<Longrightarrow>
   (\<forall>e. fst (foldl (\<lambda>lc h. happen h lc) lc hs) \<noteq> Died e) \<and>
   (fst (foldl (\<lambda>lc h. happen h lc) lc hs) = Looping \<longrightarrow>
      0 < time_limit (fst (snd (foldl (\<lambda>lc h. happen h lc) lc hs))))"
proof (induction hs arbitrary: lc)
  case Nil
  then show ?case by simp
next
  case (Cons h hs)
  from Cons.prems have "(\<forall>e. fst (happen h lc) \<noteq> Died e) \<and>
      (fst (happen h lc) = Looping \<longrightarrow> 0 < time_limit (fst (snd (happen h lc))))"
    by (intro happen_sound) simp_all
  then show ?case using Cons.IH [of "happen h lc"] by simp
qed

lemma happenings1_sound:
  "(\<forall>e. fst lc \<noteq> Died e) \<and> (fst lc = Looping \<longrightarrow> 0 < time_limit (fst (snd lc))) \<Longrightarrow>
   (\<forall>e. fst (foldl (\<lambda>lc h. happen1 h lc) lc hs) \<noteq> Died e) \<and>
   (fst (foldl (\<lambda>lc h. happen1 h lc) lc hs) = Looping \<longrightarrow>
      0 < time_limit (fst (snd (foldl (\<lambda>lc h. happen1 h lc) lc hs))))"
proof (induction hs arbitrary: lc)
  case Nil
  then show ?case by simp
next
  case (Cons h hs)
  from Cons.prems have "(\<forall>e. fst (happen1 h lc) \<noteq> Died e) \<and>
      (fst (happen1 h lc) = Looping \<longrightarrow> 0 < time_limit (fst (snd (happen1 h lc))))"
    by (intro happen1_sound) simp_all
  then show ?case using Cons.IH [of "happen1 h lc"] by simp
qed

lemma happenings_time_limit:
  "time_limit (fst (snd (foldl (\<lambda>lc h. happen h lc) lc hs))) = time_limit (fst (snd lc))"
proof (induction hs arbitrary: lc)
  case Nil
  show ?case by simp
next
  case (Cons h hs)
  have "time_limit (fst (snd (happen h lc))) = time_limit (fst (snd lc))"
  proof (cases h)
    case (Hook e)
    then show ?thesis by (simp add: deliver_time_limit)
  next
    case Pass
    obtain l c where lc: "lc = (l, c)" by (cases lc)
    obtain p c' where p: "progress_pass True c = (p, c')" by (metis surj_pair)
    have "time_limit (fst c') = time_limit (fst c)"
      using progress_pass_keeps [of time_limit True c] p by simp
    with Pass p show ?thesis
      by (cases l; cases p) (simp_all add: lc pass_on_def draw_progress_bar_pass_def)
  qed
  with Cons.IH [of "happen h lc"] show ?case by simp
qed

lemma happenings1_time_limit:
  "time_limit (fst (snd (foldl (\<lambda>lc h. happen1 h lc) lc hs))) = time_limit (fst (snd lc))"
proof (induction hs arbitrary: lc)
  case Nil
  show ?case by simp
next
  case (Cons h hs)
  have "time_limit (fst (snd (happen1 h lc))) = time_limit (fst (snd lc))"
  proof (cases h)
    case (Hook e)
    then show ?thesis by (simp add: deliver1_time_limit)
  next
    case Pass
    obtain l c where lc: "lc = (l, c)" by (cases lc)
    obtain p c' where p: "progress_pass False c = (p, c')" by (metis surj_pair)
    have "time_limit (fst c') = time_limit (fst c)"
      using progress_pass_keeps [of time_limit False c] p by simp
    with Pass p show ?thesis
      by (cases l; cases p) (simp_all add: lc pass_on_def draw_progress_bar_pass1_def)
  qed
  with Cons.IH [of "happen1 h lc"] show ?case by simp
qed

lemma start_monitor: "fst (snd (start c)) = fst c"
  by (simp add: start_def and_then_monitor case_prod_beta log_activity_monitor split: option.split)

lemma session_sound:
  assumes "total_active_time (fst c) = 0"
  shows "fst (session hs c) \<noteq> Died e"
    and "fst (session hs c) = Looping \<Longrightarrow> 0 < time_limit (fst c)"
proof -
  let ?first = "happen Pass (Looping, c)"
  have first: "(\<forall>e. fst ?first \<noteq> Died e) \<and>
      (fst ?first = Looping \<longrightarrow> 0 < time_limit (fst (snd ?first)))"
    using first_pass_sound [OF assms, of True] by (simp add: draw_progress_bar_pass_def)
  have "time_limit (fst (snd ?first)) = time_limit (fst c)"
    using happenings_time_limit [of "(Looping, c)" "[Pass]"] by simp
  then have "time_limit (fst (snd (session hs c))) = time_limit (fst c)"
    by (simp add: session_def happenings_time_limit)
  with happenings_sound [OF first, of hs]
  show "fst (session hs c) \<noteq> Died e"
    and "fst (session hs c) = Looping \<Longrightarrow> 0 < time_limit (fst c)"
    by (simp_all add: session_def)
qed

lemma session1_sound:
  assumes "total_active_time (fst c) = 0"
  shows "fst (session1 hs c) \<noteq> Died e"
    and "fst (session1 hs c) = Looping \<Longrightarrow> 0 < time_limit (fst c)"
proof -
  let ?first = "happen1 Pass (Looping, c)"
  have first: "(\<forall>e. fst ?first \<noteq> Died e) \<and>
      (fst ?first = Looping \<longrightarrow> 0 < time_limit (fst (snd ?first)))"
    using first_pass_sound [OF assms, of False] by (simp add: draw_progress_bar_pass1_def)
  have "time_limit (fst (snd ?first)) = time_limit (fst c)"
    using happenings1_time_limit [of "(Looping, c)" "[Pass]"] by simp
  then have "time_limit (fst (snd (session1 hs c))) = time_limit (fst c)"
    by (simp add: session1_def happenings1_time_limit)
  with happenings1_sound [OF first, of hs]
  show "fst (session1 hs c) \<noteq> Died e"
    and "fst (session1 hs c) = Looping \<Longrightarrow> 0 < time_limit (fst c)"
    by (simp_all add: session1_def)
qed

text \<open>
  C10. No division of the program divides by zero. The log text divides by the session
  duration floored at one second. A pass of the progress loop divides only when it has
  found \<^verbatim>\<open>running\<close> true and \<^verbatim>\<open>time_limit - total_active_time\<close> positive; in a session,
  in either file, the loop is still going after its first pass only when the limit is
  positive, and it never dies of a division by zero (or of anything else), for every
  limit, zero included, every sequence of events and passes and every clock.
\<close>

theorem no_division_by_zero:
  "fst (log_activity label c) \<noteq> Some ZeroDivisionError \<and>
   fst (session hs (snd (start (init limit w)))) \<noteq> Died e \<and>
   fst (session1 hs (init1 limit w)) \<noteq> Died e \<and>
   (fst (session hs (snd (start (init limit w)))) = Looping \<longrightarrow> 0 < limit) \<and>
   (fst (session1 hs (init1 limit w)) = Looping \<longrightarrow> 0 < limit) \<and>
   (fst (progress_pass flag (s, w')) \<noteq> Stopped \<longrightarrow>
      running s \<and> 0 < time_limit s - total_active_time s)"
proof -
  have 0: "total_active_time (fst (snd (start (init limit w)))) = 0"
    and l: "time_limit (fst (snd (start (init limit w)))) = limit"
    by (simp_all add: start_monitor init_fields)
  have 1: "total_active_time (fst (init1 limit w)) = 0"
    and l1: "time_limit (fst (init1 limit w)) = limit"
    by (simp_all add: init1_fields)
  have "fst (progress_pass flag (s, w')) \<noteq> Stopped \<longrightarrow>
      running s \<and> 0 < time_limit s - total_active_time s"
    by (simp add: progress_pass_def Let_def)
  then show ?thesis
    using session_sound [OF 0, of hs] session1_sound [OF 1, of hs]
    by (simp add: log_activity_no_zero_division l l1)
qed

lemma ended_stays:
  "fst lc = Ended \<Longrightarrow> fst (foldl (\<lambda>lc h. happen h lc) lc hs) = Ended"
proof (induction hs arbitrary: lc)
  case Nil
  then show ?case by simp
next
  case (Cons h hs)
  from Cons.prems have "fst (happen h lc) = Ended"
    by (cases h; cases lc) (simp_all add: pass_on_def)
  then show ?case using Cons.IH [of "happen h lc"] by simp
qed

lemma first_pass_ends:
  assumes "total_active_time (fst c) = 0" and "time_limit (fst c) = 0"
  shows "fst (pass_on (progress_pass flag) (Looping, c)) = Ended"
proof -
  obtain s w where c: "c = (s, w)" by (cases c)
  from assms have "progress_pass flag (s, w) = (Stopped, s, w)"
    by (simp add: c progress_pass_def)
  then show ?thesis by (simp add: c pass_on_def)
qed

lemma first_pass_goes_on:
  assumes "total_active_time (fst c) = 0" and "0 < time_limit (fst c)" and "running (fst c)"
  shows "fst (pass_on (progress_pass flag) (Looping, c)) = Looping"
proof -
  obtain s w where c: "c = (s, w)" by (cases c)
  from assms have "fst (progress_pass flag (s, w)) = Drawn"
    by (simp add: c progress_pass_def truediv_def total_seconds_def)
  then show ?thesis by (cases "progress_pass flag (s, w)") (simp add: c pass_on_def)
qed

theorem no_division_by_zero_witness:
  "fst (session [Hook (KeyDown 2000000), Hook (KeyDown 1000000), Pass]
     (snd (start (init 0 quiet)))) = Ended \<and>
   fst (session [] (snd (start (init 10000000 quiet)))) = Looping \<and>
   fst (session1 [] (init1 10000000 quiet)) = Looping \<and>
   (0 :: int) < 10000000 \<and>
   fst (progress_pass True ((fst (init 10000000 quiet))\<lparr>total_active_time := 4000000\<rparr>, quiet))
     = Drawn \<and>
   running ((fst (init 10000000 quiet))\<lparr>total_active_time := 4000000\<rparr>) \<and>
   0 < time_limit ((fst (init 10000000 quiet))\<lparr>total_active_time := 4000000\<rparr>)
     - total_active_time ((fst (init 10000000 quiet))\<lparr>total_active_time := 4000000\<rparr>)"
proof -
  have "fst (happen Pass (Looping, snd (start (init 0 quiet)))) = Ended"
    using first_pass_ends [of "snd (start (init 0 quiet))" True]
    by (simp add: draw_progress_bar_pass_def start_monitor init_fields)
  then have 1: "fst (session [Hook (KeyDown 2000000), Hook (KeyDown 1000000), Pass]
     (snd (start (init 0 quiet)))) = Ended"
    unfolding session_def by (rule ended_stays)
  have 2: "fst (session [] (snd (start (init 10000000 quiet)))) = Looping"
    using first_pass_goes_on [of "snd (start (init 10000000 quiet))" True]
    by (simp add: session_def draw_progress_bar_pass_def start_monitor init_fields)
  have 3: "fst (session1 [] (init1 10000000 quiet)) = Looping"
    using first_pass_goes_on [of "init1 10000000 quiet" False]
    by (simp add: session1_def draw_progress_bar_pass1_def init1_fields)
  have 4: "fst (progress_pass True
      ((fst (init 10000000 quiet))\<lparr>total_active_time := 4000000\<rparr>, quiet)) = Drawn"
    by (simp add: progress_pass_def init_fields truediv_def total_seconds_def)
  from no_division_by_zero [of "''Regular Update''" "init 0 quiet"
      "[] :: happening list" 10000000 quiet ZeroDivisionError True
      "(fst (init 10000000 quiet))\<lparr>total_active_time := 4000000\<rparr>" quiet] 1 2 3 4
  show ?thesis by simp
qed

section \<open>What the pattern matches\<close>

text \<open>
  A component that is written, a number and its unit, is read by its group; where it is
  not written, what follows is the end of the string or another unit, and the group
  takes no part.
\<close>

lemma more_digits_take:
  "list_all is_digit ds \<Longrightarrow> rest = [] \<or> \<not> is_digit (hd rest) \<Longrightarrow> k rest = Some r \<Longrightarrow>
   more_digits (ds @ rest) k = Some r"
proof (induction ds)
  case Nil
  then show ?case by (cases rest) simp_all
next
  case (Cons d ds)
  then show ?case by simp
qed

lemma more_digits_fail:
  assumes "\<And>s'. s' = [] \<or> hd s' \<noteq> u \<Longrightarrow> k s' = None" and "\<not> is_digit u"
  shows "list_all is_digit ds \<Longrightarrow> rest = [] \<or> hd rest \<noteq> u \<and> \<not> is_digit (hd rest) \<Longrightarrow>
   more_digits (ds @ rest) k = None"
proof (induction ds)
  case Nil
  then show ?case using assms(1) [of rest] by (cases rest) auto
next
  case (Cons d ds)
  from Cons.prems have d: "is_digit d" by simp
  with assms(2) have "d \<noteq> u" by auto
  then have "k (d # ds @ rest) = None" using assms(1) [of "d # ds @ rest"] by simp
  moreover from Cons have "more_digits (ds @ rest) k = None" by simp
  ultimately show ?case using d by simp
qed

lemma component_unfold:
  "rmatch (component i u) s g k =
     (case some_digits s (\<lambda>rest. rmatch (Lit u) rest (g(i \<mapsto> take (length s - length rest) s)) k) of
        Some m \<Rightarrow> Some m | None \<Rightarrow> k s g)"
  by (simp add: component_def)

lemma component_present:
  assumes "ds \<noteq> []" and "list_all is_digit ds" and "\<not> is_digit u"
    and "k rest (g(i \<mapsto> ds)) = Some r"
  shows "rmatch (component i u) (ds @ u # rest) g k = Some r"
proof -
  let ?s = "ds @ u # rest"
  let ?k = "\<lambda>rest'. rmatch (Lit u) rest' (g(i \<mapsto> take (length ?s - length rest') ?s)) k"
  obtain d ds' where ds: "ds = d # ds'" using assms(1) by (cases ds) auto
  have "?k (u # rest) = Some r" using assms(4) by simp
  moreover have "list_all is_digit ds'" using assms(2) ds by simp
  moreover have "u # rest = [] \<or> \<not> is_digit (hd (u # rest))" using assms(3) by simp
  ultimately have "more_digits (ds' @ u # rest) ?k = Some r" by (intro more_digits_take)
  moreover have "is_digit d" using assms(2) ds by simp
  ultimately have "some_digits ?s ?k = Some r" by (simp add: ds)
  then show ?thesis unfolding component_unfold by simp
qed

lemma component_absent:
  assumes "other_unit u s" and "\<not> is_digit u"
  shows "rmatch (component i u) s g k = k s g"
proof -
  let ?k = "\<lambda>rest'. rmatch (Lit u) rest' (g(i \<mapsto> take (length s - length rest') s)) k"
  have k: "?k s' = None" if "s' = [] \<or> hd s' \<noteq> u" for s'
    using that by (cases s') auto
  have "some_digits s ?k = None"
  proof (cases "s = []")
    case True
    then show ?thesis by simp
  next
    case False
    with assms(1) obtain ds v rest where s: "s = ds @ v # rest" and ds: "list_all is_digit ds"
      and v: "v \<noteq> u" "\<not> is_digit v" by (auto simp add: other_unit_def)
    show ?thesis
    proof (cases ds)
      case Nil
      with s v show ?thesis by simp
    next
      case (Cons d ds')
      with ds have d: "is_digit d" and ds': "list_all is_digit ds'" by simp_all
      have "v # rest = [] \<or> hd (v # rest) \<noteq> u \<and> \<not> is_digit (hd (v # rest))"
        using v by simp
      with k assms(2) ds' have "more_digits (ds' @ v # rest) ?k = None"
        by (rule more_digits_fail)
      with d show ?thesis by (simp add: s Cons)
    qed
  qed
  then show ?thesis unfolding component_unfold by simp
qed

lemma component_written:
  assumes "number x" and "\<not> is_digit u" and "x = None \<Longrightarrow> other_unit u rest"
    and "k rest (captured i x g) = Some r"
  shows "rmatch (component i u) (written x u @ rest) g k = Some r"
proof (cases x)
  case None
  with assms show ?thesis by (simp add: component_absent captured_def)
next
  case (Some ds)
  with assms(1) have "ds \<noteq> []" and "list_all is_digit ds" by (simp_all add: number_def)
  then show ?thesis using assms(2,4) Some by (simp add: component_present captured_def)
qed

lemma other_unit_written:
  assumes "number x" and "v \<noteq> u" and "\<not> is_digit v" and "x = None \<Longrightarrow> other_unit u rest"
  shows "other_unit u (written x v @ rest)"
proof (cases x)
  case None
  with assms show ?thesis by simp
next
  case (Some ds)
  with assms(1) have "list_all is_digit ds" by (simp add: number_def)
  with assms(2,3) Some show ?thesis unfolding other_unit_def by auto
qed

lemma unit_not_digit:
  "\<not> is_digit CHR ''h''" "\<not> is_digit CHR ''m''" "\<not> is_digit CHR ''s''"
  by (simp_all add: is_digit_def)

lemma re_match_written:
  assumes "number h" and "number m" and "number s"
  shows "re_match pattern (written h CHR ''h'' @ written m CHR ''m'' @ written s CHR ''s'')
    = Some (captured 3 s (captured 2 m (captured 1 h (\<lambda>i. None))))"
proof -
  let ?k3 = "\<lambda>(rest :: string) (g :: groups). Some g"
  let ?k2 = "\<lambda>s' g'. rmatch (component 3 CHR ''s'') s' g' ?k3"
  let ?k1 = "\<lambda>s' g'. rmatch (component 2 CHR ''m'') s' g' ?k2"
  have e: "other_unit u []" for u by (simp add: other_unit_def)
  have 3: "?k2 (written s CHR ''s'') g = Some (captured 3 s g)" for g
    using component_written [OF assms(3) unit_not_digit(3), of "[]" ?k3 3 g] e by simp
  have o3: "other_unit u (written s CHR ''s'')" if "u \<noteq> CHR ''s''" for u
    using other_unit_written [OF assms(3) _ unit_not_digit(3), of u "[]"] that e by simp
  have 2: "?k1 (written m CHR ''m'' @ written s CHR ''s'') g = Some (captured 3 s (captured 2 m g))" for g
    using component_written [OF assms(2) unit_not_digit(2), of "written s CHR ''s''" ?k2 2 g] 3 o3
    by simp
  have o2: "other_unit CHR ''h'' (written m CHR ''m'' @ written s CHR ''s'')"
    using other_unit_written [OF assms(2) _ unit_not_digit(2), of "CHR ''h''" "written s CHR ''s''"] o3
    by simp
  have "rmatch (component 1 CHR ''h'')
      (written h CHR ''h'' @ written m CHR ''m'' @ written s CHR ''s'') (\<lambda>i. None) ?k1
    = Some (captured 3 s (captured 2 m (captured 1 h (\<lambda>i. None))))"
    using component_written [OF assms(1) unit_not_digit(1),
        of "written m CHR ''m'' @ written s CHR ''s''" ?k1 1 "\<lambda>i. None"] 2 o2
    by simp
  then show ?thesis by (simp add: re_match_def pattern_def)
qed

lemma captured_groups:
  "captured 3 s (captured 2 m (captured (Suc 0) h (\<lambda>i. None)))
     = (\<lambda>i. if i = 1 then h else if i = 2 then m else if i = 3 then s else None)"
  by (auto simp add: captured_def fun_eq_iff split: option.split)

lemma parse_time_limit_written:
  assumes "number h" and "number m" and "number s"
  shows "parse_time_limit (written h CHR ''h'' @ written m CHR ''m'' @ written s CHR ''s'')
    = (case int_or_0 h of
         Inl e \<Rightarrow> Inl e
       | Inr hours \<Rightarrow>
           (case int_or_0 m of
              Inl e \<Rightarrow> Inl e
            | Inr minutes \<Rightarrow>
                (case int_or_0 s of
                   Inl e \<Rightarrow> Inl e
                 | Inr seconds \<Rightarrow> timedelta hours minutes seconds)))"
  by (simp add: parse_time_limit_def re_match_written [OF assms] captured_groups)

lemma int_or_0_within: "within_limit x \<Longrightarrow> int_or_0 x = Inr (amount x)"
  by (cases x) (simp_all add: within_limit_def int_or_0_def py_int_def amount_def)

lemma int_or_0_beyond: "\<not> within_limit x \<Longrightarrow> int_or_0 x = Inl DigitsLimit"
  by (cases x) (simp_all add: within_limit_def int_or_0_def py_int_def)

lemma int_or_0_cases: "int_or_0 x = Inl DigitsLimit \<or> int_or_0 x = Inr (amount x)"
  using int_or_0_within [of x] int_or_0_beyond [of x] by blast

lemma parse_examples:
  "parse_time_limit ''1h10m1s'' = Inr 4201000000"
  "parse_time_limit [] = Inr 0"
  "parse_time_limit ''10m'' = Inr 600000000"
  "parse_time_limit ''abc'' = Inr 0"
  "parse_time_limit ''1s'' = Inr 1000000"
  by (simp_all add: parse_time_limit_def re_match_def pattern_def component_def is_digit_def
      timedelta_def int_or_0_def py_int_def int_of_digits_def)

text \<open>
  C4. \<^verbatim>\<open>parse_time_limit\<close> maps \<open>1h10m1s\<close> to one hour, ten minutes and one second,
  the empty string to the zero duration, \<open>10m\<close> to ten minutes, and \<open>abc\<close> to the zero
  duration, without rejecting it. Each of the three components is optional: for any
  choice of written and missing components, in the order hours, minutes, seconds, the
  result is \<^verbatim>\<open>timedelta\<close> of the numbers written, with 0 for a missing one, as long as
  no number has more than 4300 digits; a number that has makes \<^verbatim>\<open>int\<close> raise its
  \<^verbatim>\<open>ValueError\<close>.
\<close>

theorem parse_time_limit_components:
  "parse_time_limit ''1h10m1s'' = Inr 4201000000 \<and>
   parse_time_limit [] = Inr 0 \<and>
   parse_time_limit ''10m'' = Inr 600000000 \<and>
   parse_time_limit ''abc'' = Inr 0 \<and>
   (number h \<and> number m \<and> number s \<and> within_limit h \<and> within_limit m \<and> within_limit s \<longrightarrow>
      parse_time_limit (written h CHR ''h'' @ written m CHR ''m'' @ written s CHR ''s'')
        = timedelta (amount h) (amount m) (amount s)) \<and>
   (number h \<and> number m \<and> number s \<and>
    \<not> (within_limit h \<and> within_limit m \<and> within_limit s) \<longrightarrow>
      parse_time_limit (written h CHR ''h'' @ written m CHR ''m'' @ written s CHR ''s'')
        = Inl DigitsLimit)"
proof -
  have 5: "parse_time_limit (written h CHR ''h'' @ written m CHR ''m'' @ written s CHR ''s'')
        = timedelta (amount h) (amount m) (amount s)"
    if "number h" "number m" "number s" "within_limit h" "within_limit m" "within_limit s"
    using that by (simp add: parse_time_limit_written int_or_0_within)
  have 6: "parse_time_limit (written h CHR ''h'' @ written m CHR ''m'' @ written s CHR ''s'')
        = Inl DigitsLimit"
    if "number h" "number m" "number s" "\<not> (within_limit h \<and> within_limit m \<and> within_limit s)"
    using that int_or_0_cases [of h] int_or_0_cases [of m] int_or_0_cases [of s]
      int_or_0_beyond [of h] int_or_0_beyond [of m] int_or_0_beyond [of s]
    by (auto simp add: parse_time_limit_written)
  from parse_examples 5 6 show ?thesis by blast
qed

theorem parse_time_limit_components_witness:
  "number (Some ''2'') \<and> number None \<and> number (Some ''30'') \<and>
   within_limit (Some ''2'') \<and> within_limit None \<and> within_limit (Some ''30'') \<and>
   parse_time_limit ''2h30s'' = Inr 7230000000 \<and>
   number (Some ''90'') \<and> within_limit (Some ''90'') \<and>
   parse_time_limit ''90m'' = Inr 5400000000 \<and>
   number (Some (replicate 4301 CHR ''1'')) \<and>
   \<not> (within_limit (Some (replicate 4301 CHR ''1'')) \<and> within_limit None \<and> within_limit None) \<and>
   parse_time_limit (replicate 4301 CHR ''1'' @ ''h'') = Inl DigitsLimit"
proof -
  have n: "number (Some ''2'')" "number None" "number (Some ''30'')" "number (Some ''90'')"
    "number (Some (replicate 4301 CHR ''1''))"
    by (simp_all add: number_def is_digit_def list_all_iff)
  have l: "within_limit (Some ''2'')" "within_limit None" "within_limit (Some ''30'')"
    "within_limit (Some ''90'')" "\<not> within_limit (Some (replicate 4301 CHR ''1''))"
    by (simp_all add: within_limit_def)
  have t: "timedelta (amount (Some ''2'')) (amount None) (amount (Some ''30'')) = Inr 7230000000"
    "timedelta (amount None) (amount (Some ''90'')) (amount None) = Inr 5400000000"
    by (simp_all add: timedelta_def amount_def int_of_digits_def)
  have w: "written (Some ''2'') CHR ''h'' @ written None CHR ''m'' @ written (Some ''30'') CHR ''s''
      = ''2h30s''"
    "written None CHR ''h'' @ written (Some ''90'') CHR ''m'' @ written None CHR ''s'' = ''90m''"
    "written (Some (replicate 4301 CHR ''1'')) CHR ''h'' @ written None CHR ''m''
      @ written None CHR ''s'' = replicate 4301 CHR ''1'' @ ''h''"
    by simp_all
  from parse_time_limit_components [of "Some ''2''" None "Some ''30''"]
    parse_time_limit_components [of None "Some ''90''" None]
    parse_time_limit_components [of "Some (replicate 4301 CHR ''1'')" None None] n l
  show ?thesis unfolding t w by (intro conjI) blast+
qed

section \<open>Rejecting a time limit\<close>

text \<open>
  Every group of the pattern is optional, so the pattern matches the empty prefix of any
  string: \<^verbatim>\<open>re.match\<close> never returns \<^verbatim>\<open>None\<close>, and the \<^verbatim>\<open>raise\<close> under
  \<^verbatim>\<open>if not match\<close> is never reached.
\<close>

lemma component_total:
  assumes "\<And>s g. k s g \<noteq> None"
  shows "rmatch (component i u) s g k \<noteq> None"
  using assms [of s g] unfolding component_unfold by (simp split: option.split)

lemma re_match_pattern_total: "re_match pattern s \<noteq> None"
proof -
  let ?k3 = "\<lambda>(rest :: string) (g :: groups). Some g"
  let ?k2 = "\<lambda>s' g'. rmatch (component 3 CHR ''s'') s' g' ?k3"
  let ?k1 = "\<lambda>s' g'. rmatch (component 2 CHR ''m'') s' g' ?k2"
  have 3: "?k2 s' g' \<noteq> None" for s' g' by (rule component_total) simp
  have 2: "?k1 s' g' \<noteq> None" for s' g' by (rule component_total) (rule 3)
  have "rmatch (component 1 CHR ''h'') s (\<lambda>i. None) ?k1 \<noteq> None"
    by (rule component_total) (rule 2)
  then show ?thesis by (simp add: re_match_def pattern_def)
qed

lemma parse_time_limit_accepts: "parse_time_limit time \<noteq> Inl InvalidTimeFormat"
proof -
  from re_match_pattern_total [of time] obtain g where "re_match pattern time = Some g" by auto
  then show ?thesis
    by (simp add: parse_time_limit_def timedelta_def Let_def int_or_0_def py_int_def
        split: sum.split option.split)
qed

lemma start_quiet:
  obtains s w' where "start (init limit quiet) = (None, s, w')" and "time_limit s = limit"
proof -
  have "dependable (emit (PrintBanner limit) (snd (init limit quiet)))"
    using dependable_quiet by (simp add: dependable_shift init_world)
  then obtain r w1 where "log_activity ''Session Started''
      (fst (init limit quiet), emit (PrintBanner limit) (snd (init limit quiet)))
        = (None, fst (init limit quiet), w1)"
    by (rule log_activity_dependable)
  then have "fst (start (init limit quiet)) = None"
    by (simp add: start_def and_then_raised case_prod_beta init_fields)
  moreover have "time_limit (fst (snd (start (init limit quiet)))) = limit"
    by (simp add: start_monitor init_fields)
  ultimately show ?thesis using that by (metis prod.collapse)
qed

lemma parse_too_many_digits:
  "parse_time_limit (replicate 4301 CHR ''1'' @ ''h'') = Inl DigitsLimit"
proof -
  have "number (Some (replicate 4301 CHR ''1''))" and "number None"
    by (simp_all add: number_def is_digit_def list_all_iff)
  from parse_time_limit_written [OF this(1) this(2) this(2)]
  show ?thesis by (simp add: int_or_0_def py_int_def)
qed

text \<open>
  C3. The code does not do what the claim says. The string \<open>abc\<close> does not conform to
  the format, yet \<^verbatim>\<open>parse_time_limit\<close> returns the zero duration for it, and \<^verbatim>\<open>main\<close>
  creates the monitor with that limit and returns \<^verbatim>\<open>None\<close>, which is exit status 0:
  no string at all makes \<^verbatim>\<open>parse_time_limit\<close> raise its "invalid time format" error.
  What the claim describes is what \<^verbatim>\<open>main\<close> does with a \<^verbatim>\<open>ValueError\<close>, as the one that
  \<^verbatim>\<open>int\<close> raises for a number of 4301 digits shows: it returns 1 and no monitor exists.
\<close>

theorem malformed_time_accepted:
  "\<not> conforms ''abc'' \<and> parse_time_limit ''abc'' = Inr 0 \<and>
   fst (main ''abc'' quiet) = Inr None \<and> exit_status (fst (main ''abc'' quiet)) = 0 \<and>
   map_option time_limit (fst (snd (main ''abc'' quiet))) = Some 0 \<and>
   parse_time_limit time \<noteq> Inl InvalidTimeFormat \<and>
   fst (main (replicate 4301 CHR ''1'' @ ''h'') quiet) = Inr (Some 1) \<and>
   fst (snd (main (replicate 4301 CHR ''1'' @ ''h'') quiet)) = None"
proof -
  have 1: "\<not> conforms ''abc''"
    by (simp add: conforms_def pattern_def component_def is_digit_def)
  obtain s w' where st: "start (init 0 quiet) = (None, s, w')" and "time_limit s = 0"
    by (rule start_quiet)
  then have 2: "fst (main ''abc'' quiet) = Inr None"
    and 3: "map_option time_limit (fst (snd (main ''abc'' quiet))) = Some 0"
    by (simp_all add: main_def parse_examples)
  have 4: "fst (main (replicate 4301 CHR ''1'' @ ''h'') quiet) = Inr (Some 1)"
    and 5: "fst (snd (main (replicate 4301 CHR ''1'' @ ''h'') quiet)) = None"
    by (simp_all add: main_def parse_too_many_digits is_ValueError_def)
  from 1 2 3 4 5 parse_examples(4) parse_time_limit_accepts [of time]
  show ?thesis by (simp add: exit_status_def)
qed

end
